theory Spec2Isabelle
  imports
    Complex_Main
    "HOL-Library.Multiset"
    "HOL-Library.Char_ord"
    "HOL-Library.List_Lexorder"
    "HOL-Library.Product_Lexorder"
begin

section \<open>Text helpers\<close>

text \<open>
  Python \<open>str\<close> values are modelled as \<open>string\<close>, holding the UTF-8 bytes of the text; the
  Chinese literals of \<open>main.py\<close> are written as their UTF-8 bytes, with the code points in a
  comment beside each.
\<close>

definition digit_char :: "nat \<Rightarrow> char" where
  "digit_char d = char_of (48 + d)"

text \<open>\<open>str(n)\<close> of a non-negative Python int, as an f-string field renders it.\<close>

fun str_nat :: "nat \<Rightarrow> string" where
  "str_nat n = (if n < 10 then [digit_char n] else str_nat (n div 10) @ [digit_char (n mod 10)])"

declare str_nat.simps [simp del]

text \<open>\<open>sep.join(xs)\<close>.\<close>

fun join :: "string \<Rightarrow> string list \<Rightarrow> string" where
  "join sep [] = []"
| "join sep [x] = x"
| "join sep (x # y # ys) = x @ sep @ join sep (y # ys)"

text \<open>
  \<open>os.path.basename\<close> as \<open>posixpath\<close> defines it: everything after the last \<open>/\<close>
  (\<open>i = p.rfind('/') + 1; return p[i:]\<close>).
\<close>

definition basename :: "string \<Rightarrow> string" where
  "basename p = rev (takeWhile (\<lambda>c. c \<noteq> CHR ''/'') (rev p))"

section \<open>Worker threads (main.py, lines 15-66)\<close>

text \<open>
  An engine call either returns a pair \<open>(success, message)\<close> or raises. What it raises is an
  instance of \<open>Exception\<close>, kept as \<open>Exception m\<close> with \<open>m\<close> its \<open>str(e)\<close>, or an instance
  of \<open>BaseException\<close> outside the class \<open>Exception\<close> (\<open>SystemExit\<close>, \<open>KeyboardInterrupt\<close>,
  \<open>GeneratorExit\<close>), kept as \<open>BaseException m\<close>. The handlers of both workers are
  \<open>except Exception as e\<close>: they catch the first kind only.
\<close>

datatype exn = Exception string | BaseException string

type_synonym engine_result = "exn + (bool \<times> string)"

text \<open>A \<open>finished_signal.emit(success, message)\<close>. A run is modelled by the list of its
  emissions, in order; a raise that no handler of \<open>run\<close> catches leaves \<open>run\<close> at once, with
  what was emitted before it.\<close>

type_synonym emission = "bool \<times> string"

record StitcherThread =
  st_image_paths :: "string list"
  st_output_dir :: string
  st_split_count :: int
  st_target_width :: "int option"
  st_max_kb :: int

record SlicerThread =
  sl_image_paths :: "string list"
  sl_output_dir :: string
  sl_count :: int
  sl_smart_mode :: bool
  sl_target_width :: "int option"
  sl_max_kb :: int


type_synonym slice_engine =
  "string \<Rightarrow> string \<Rightarrow> int \<Rightarrow> bool \<Rightarrow> int option \<Rightarrow> int \<Rightarrow> engine_result"


definition slice_call :: "slice_engine \<Rightarrow> SlicerThread \<Rightarrow> string \<Rightarrow> engine_result" where
  "slice_call slice_image t path =
     slice_image path (sl_output_dir t) (sl_count t) (sl_smart_mode t) (sl_target_width t)
       (sl_max_kb t)"

text \<open>The \<open>for path in self.image_paths\<close> loop, with \<open>success_count\<close> and \<open>errors\<close> as
  accumulators; a raising call leaves the loop at once.\<close>

fun slice_loop ::
  "(string \<Rightarrow> engine_result) \<Rightarrow> string list \<Rightarrow> nat \<Rightarrow> string list \<Rightarrow> exn + (nat \<times> string list)"
where
  "slice_loop f [] success_count errors = Inr (success_count, errors)"
| "slice_loop f (path # rest) success_count errors =
     (case f path of
        Inl e \<Rightarrow> Inl e
      | Inr (success, msg) \<Rightarrow>
          if success then slice_loop f rest (success_count + 1) errors
          else slice_loop f rest success_count (errors @ [basename path @ '': '' @ msg]))"

text \<open>U+6210 U+529F U+5207 U+5206 U+6240 U+6709, space.\<close>
definition msg_all_ok_pre :: string where
  "msg_all_ok_pre = [CHR 0xE6, CHR 0x88, CHR 0x90, CHR 0xE5, CHR 0x8A, CHR 0x9F, CHR 0xE5, CHR 0x88,
     CHR 0x87, CHR 0xE5, CHR 0x88, CHR 0x86, CHR 0xE6, CHR 0x89, CHR 0x80, CHR 0xE6, CHR 0x9C,
     CHR 0x89] @ '' ''"

text \<open>Space, U+5F20 U+56FE U+7247 U+3002.\<close>
definition msg_all_ok_post :: string where
  "msg_all_ok_post = '' '' @ [CHR 0xE5, CHR 0xBC, CHR 0xA0, CHR 0xE5, CHR 0x9B, CHR 0xBE, CHR 0xE7,
     CHR 0x89, CHR 0x87, CHR 0xE3, CHR 0x80, CHR 0x82]"

text \<open>U+90E8 U+5206 U+6210 U+529F, space, opening parenthesis.\<close>
definition msg_partial_pre :: string where
  "msg_partial_pre = [CHR 0xE9, CHR 0x83, CHR 0xA8, CHR 0xE5, CHR 0x88, CHR 0x86, CHR 0xE6, CHR 0x88,
     CHR 0x90, CHR 0xE5, CHR 0x8A, CHR 0x9F] @ '' (''"

text \<open>Closing parenthesis, U+3002, newline, U+5931 U+8D25 U+5217 U+8868, colon, newline.\<close>
definition msg_partial_post :: string where
  "msg_partial_post = '')'' @ [CHR 0xE3, CHR 0x80, CHR 0x82, CHR 0x0A, CHR 0xE5, CHR 0xA4, CHR 0xB1,
     CHR 0xE8, CHR 0xB4, CHR 0xA5, CHR 0xE5, CHR 0x88, CHR 0x97, CHR 0xE8, CHR 0xA1, CHR 0xA8]
     @ '':'' @ [CHR 0x0A]"

text \<open>U+6240 U+6709 U+56FE U+7247 U+5207 U+5206 U+5931 U+8D25, colon, newline.\<close>
definition msg_all_failed :: string where
  "msg_all_failed = [CHR 0xE6, CHR 0x89, CHR 0x80, CHR 0xE6, CHR 0x9C, CHR 0x89, CHR 0xE5, CHR 0x9B,
     CHR 0xBE, CHR 0xE7, CHR 0x89, CHR 0x87, CHR 0xE5, CHR 0x88, CHR 0x87, CHR 0xE5, CHR 0x88,
     CHR 0x86, CHR 0xE5, CHR 0xA4, CHR 0xB1, CHR 0xE8, CHR 0xB4, CHR 0xA5] @ '':'' @ [CHR 0x0A]"

definition SlicerThread_run :: "slice_engine \<Rightarrow> SlicerThread \<Rightarrow> emission list" where
  "SlicerThread_run slice_image t =
     (case slice_loop (slice_call slice_image t) (sl_image_paths t) 0 [] of
        Inl (Exception m) \<Rightarrow> [(False, m)]
      | Inl (BaseException m) \<Rightarrow> []
      | Inr (success_count, errors) \<Rightarrow>
          if success_count = length (sl_image_paths t) then
            [(True, msg_all_ok_pre @ str_nat success_count @ msg_all_ok_post)]
          else if success_count > 0 then
            [(True, msg_partial_pre @ str_nat success_count @ ''/''
                    @ str_nat (length (sl_image_paths t)) @ msg_partial_post
                    @ join [CHR 0x0A] errors)]
          else
            [(False, msg_all_failed @ join [CHR 0x0A] errors)])"

section \<open>The window (main.py, class ImageMatrixApp)\<close>

subsection \<open>Widgets\<close>

text \<open>
  \<open>QSlider\<close> is PyQt6's. Its range and value follow Qt's \<open>QAbstractSlider\<close>:
  \<open>setRange(min, max)\<close> stores \<open>min\<close> and \<open>qMax(min, max)\<close> and re-bounds the value,
  \<open>setMinimum(min)\<close> is \<open>setRange(min, qMax(maximum, min))\<close>, \<open>setMaximum(max)\<close> is
  \<open>setRange(qMin(minimum, max), max)\<close>, and \<open>setValue(v)\<close> stores
  \<open>qMax(minimum, qMin(maximum, v))\<close>. A new slider has range 0..99 and value 0.
\<close>

record slider =
  minimum :: int
  maximum :: int
  slider_value :: int

definition new_slider :: slider where
  "new_slider = \<lparr>minimum = 0, maximum = 99, slider_value = 0\<rparr>"

definition bound :: "slider \<Rightarrow> int \<Rightarrow> int" where
  "bound s v = max (minimum s) (min (maximum s) v)"

definition setValue :: "int \<Rightarrow> slider \<Rightarrow> slider" where
  "setValue v s = s\<lparr>slider_value := bound s v\<rparr>"

definition setRange :: "int \<Rightarrow> int \<Rightarrow> slider \<Rightarrow> slider" where
  "setRange mn mx s = setValue (slider_value s) (s\<lparr>minimum := mn, maximum := max mn mx\<rparr>)"

definition setMinimum :: "int \<Rightarrow> slider \<Rightarrow> slider" where
  "setMinimum mn s = setRange mn (max (maximum s) mn) s"

definition setMaximum :: "int \<Rightarrow> slider \<Rightarrow> slider" where
  "setMaximum mx s = setRange (min (minimum s) mx) mx s"

text \<open>The radio buttons of each tab sit in one exclusive \<open>QButtonGroup\<close>: the checked
  button is a value of the group.\<close>

datatype merge_width = M_original | M_750 | M_1080 | M_custom

datatype slice_width = S_original | S_custom

datatype dialog =
  Warning string string
| Information string string
| Critical string string

subsection \<open>Python text operations used by the window\<close>

definition is_digit :: "char \<Rightarrow> bool" where
  "is_digit c = (let n = (of_char c :: nat) in 48 \<le> n \<and> n \<le> 57)"

text \<open>ASCII white space, as \<open>str.strip\<close> and \<open>int\<close> skip it.\<close>

definition is_space :: "char \<Rightarrow> bool" where
  "is_space c = (let n = (of_char c :: nat) in (9 \<le> n \<and> n \<le> 13) \<or> (28 \<le> n \<and> n \<le> 32))"

definition strip :: "string \<Rightarrow> string" where
  "strip s = rev (dropWhile is_space (rev (dropWhile is_space s)))"

text \<open>The digits of a decimal literal: groups of digits, single underscores between them.\<close>

fun digits_ok :: "string \<Rightarrow> bool" where
  "digits_ok [] = False"
| "digits_ok [c] = is_digit c"
| "digits_ok (c # d # r) =
     (is_digit c \<and> (if d = CHR ''_'' then digits_ok r else digits_ok (d # r)))"

definition digits_value :: "string \<Rightarrow> nat" where
  "digits_value s = foldl (\<lambda>acc c. 10 * acc + ((of_char c :: nat) - 48)) 0 (filter is_digit s)"

text \<open>\<open>int(text)\<close> in base ten; \<open>None\<close> is \<open>ValueError\<close>.\<close>

definition py_int :: "string \<Rightarrow> int option" where
  "py_int s =
     (let t = strip s;
          neg = (t \<noteq> [] \<and> hd t = CHR ''-'');
          body = (if t \<noteq> [] \<and> (hd t = CHR ''-'' \<or> hd t = CHR ''+'') then tl t else t)
      in if digits_ok body
         then Some (if neg then - int (digits_value body) else int (digits_value body))
         else None)"

text \<open>\<open>str.lower\<close> on the ASCII letters; the other bytes are kept.\<close>

definition lower_char :: "char \<Rightarrow> char" where
  "lower_char c =
     (let n = (of_char c :: nat) in if 65 \<le> n \<and> n \<le> 90 then char_of (n + 32) else c)"

definition lower :: "string \<Rightarrow> string" where
  "lower s = map lower_char s"

definition endswith :: "string \<Rightarrow> string \<Rightarrow> bool" where
  "endswith s suffix = (length suffix \<le> length s \<and> drop (length s - length suffix) s = suffix)"

definition valid_extensions :: "string list" where
  "valid_extensions = [''.jpg'', ''.jpeg'', ''.png'', ''.psd'']"

definition is_supported :: "string \<Rightarrow> bool" where
  "is_supported f = list_ex (endswith (lower f)) valid_extensions"

text \<open>\<open>os.path.join(home, "Desktop")\<close> as \<open>posixpath\<close> joins.\<close>

definition path_join :: "string \<Rightarrow> string \<Rightarrow> string" where
  "path_join a b =
     (if b \<noteq> [] \<and> hd b = CHR ''/'' then b
      else if a = [] \<or> last a = CHR ''/'' then a @ b
      else a @ ''/'' @ b)"

subsection \<open>Dialog texts\<close>

text \<open>U+63D0 U+793A.\<close>
definition txt_hint :: string where
  "txt_hint = [CHR 0xE6, CHR 0x8F, CHR 0x90, CHR 0xE7, CHR 0xA4, CHR 0xBA]"

text \<open>U+8BF7 U+5148 U+6DFB U+52A0 U+56FE U+7247 U+FF01.\<close>
definition txt_add_images_first :: string where
  "txt_add_images_first = [CHR 0xE8, CHR 0xAF, CHR 0xB7, CHR 0xE5, CHR 0x85, CHR 0x88, CHR 0xE6,
     CHR 0xB7, CHR 0xBB, CHR 0xE5, CHR 0x8A, CHR 0xA0, CHR 0xE5, CHR 0x9B, CHR 0xBE, CHR 0xE7,
     CHR 0x89, CHR 0x87, CHR 0xEF, CHR 0xBC, CHR 0x81]"

text \<open>U+8F93 U+5165 U+9519 U+8BEF.\<close>
definition txt_input_error :: string where
  "txt_input_error = [CHR 0xE8, CHR 0xBE, CHR 0x93, CHR 0xE5, CHR 0x85, CHR 0xA5, CHR 0xE9, CHR 0x94,
     CHR 0x99, CHR 0xE8, CHR 0xAF, CHR 0xAF]"

text \<open>U+8BF7 U+8F93 U+5165 U+6709 U+6548 U+7684 U+5BBD U+5EA6 U+FF01.\<close>
definition txt_enter_valid_width :: string where
  "txt_enter_valid_width = [CHR 0xE8, CHR 0xAF, CHR 0xB7, CHR 0xE8, CHR 0xBE, CHR 0x93, CHR 0xE5,
     CHR 0x85, CHR 0xA5, CHR 0xE6, CHR 0x9C, CHR 0x89, CHR 0xE6, CHR 0x95, CHR 0x88, CHR 0xE7,
     CHR 0x9A, CHR 0x84, CHR 0xE5, CHR 0xAE, CHR 0xBD, CHR 0xE5, CHR 0xBA, CHR 0xA6, CHR 0xEF,
     CHR 0xBC, CHR 0x81]"

text \<open>U+8BF7 U+5148 U+6DFB U+52A0 U+8981 U+5207 U+5206 U+7684 U+56FE U+7247 U+FF01.\<close>
definition txt_add_slice_images_first :: string where
  "txt_add_slice_images_first = [CHR 0xE8, CHR 0xAF, CHR 0xB7, CHR 0xE5, CHR 0x85, CHR 0x88,
     CHR 0xE6, CHR 0xB7, CHR 0xBB, CHR 0xE5, CHR 0x8A, CHR 0xA0, CHR 0xE8, CHR 0xA6, CHR 0x81,
     CHR 0xE5, CHR 0x88, CHR 0x87, CHR 0xE5, CHR 0x88, CHR 0x86, CHR 0xE7, CHR 0x9A, CHR 0x84,
     CHR 0xE5, CHR 0x9B, CHR 0xBE, CHR 0xE7, CHR 0x89, CHR 0x87, CHR 0xEF, CHR 0xBC, CHR 0x81]"

text \<open>U+65E0 U+6548 U+6587 U+4EF6.\<close>
definition txt_invalid_file :: string where
  "txt_invalid_file = [CHR 0xE6, CHR 0x97, CHR 0xA0, CHR 0xE6, CHR 0x95, CHR 0x88, CHR 0xE6, CHR 0x96,
     CHR 0x87, CHR 0xE4, CHR 0xBB, CHR 0xB6]"

text \<open>U+8BF7 U+53EA U+62D6 U+5165 U+652F U+6301 U+7684 U+56FE U+7247 U+6587 U+4EF6, then
  the list of extensions in parentheses.\<close>
definition txt_only_supported :: string where
  "txt_only_supported = [CHR 0xE8, CHR 0xAF, CHR 0xB7, CHR 0xE5, CHR 0x8F, CHR 0xAA, CHR 0xE6,
     CHR 0x8B, CHR 0x96, CHR 0xE5, CHR 0x85, CHR 0xA5, CHR 0xE6, CHR 0x94, CHR 0xAF, CHR 0xE6,
     CHR 0x8C, CHR 0x81, CHR 0xE7, CHR 0x9A, CHR 0x84, CHR 0xE5, CHR 0x9B, CHR 0xBE, CHR 0xE7,
     CHR 0x89, CHR 0x87, CHR 0xE6, CHR 0x96, CHR 0x87, CHR 0xE4, CHR 0xBB, CHR 0xB6]
     @ '' (.jpg, .png, .psd)''"

text \<open>U+6210 U+529F.\<close>
definition txt_success :: string where
  "txt_success = [CHR 0xE6, CHR 0x88, CHR 0x90, CHR 0xE5, CHR 0x8A, CHR 0x9F]"

text \<open>Newline, U+5DF2 U+4FDD U+5B58 U+5230 U+684C U+9762 U+3002.\<close>
definition txt_saved_to_desktop :: string where
  "txt_saved_to_desktop = [CHR 0x0A, CHR 0xE5, CHR 0xB7, CHR 0xB2, CHR 0xE4, CHR 0xBF, CHR 0x9D,
     CHR 0xE5, CHR 0xAD, CHR 0x98, CHR 0xE5, CHR 0x88, CHR 0xB0, CHR 0xE6, CHR 0xA1, CHR 0x8C,
     CHR 0xE9, CHR 0x9D, CHR 0xA2, CHR 0xE3, CHR 0x80, CHR 0x82]"

text \<open>U+9519 U+8BEF.\<close>
definition txt_error :: string where
  "txt_error = [CHR 0xE9, CHR 0x94, CHR 0x99, CHR 0xE8, CHR 0xAF, CHR 0xAF]"

text \<open>U+62FC U+63A5 U+5931 U+8D25 U+FF1A, newline.\<close>
definition txt_stitch_failed :: string where
  "txt_stitch_failed = [CHR 0xE6, CHR 0x8B, CHR 0xBC, CHR 0xE6, CHR 0x8E, CHR 0xA5, CHR 0xE5,
     CHR 0xA4, CHR 0xB1, CHR 0xE8, CHR 0xB4, CHR 0xA5, CHR 0xEF, CHR 0xBC, CHR 0x9A, CHR 0x0A]"

text \<open>U+5B8C U+6210.\<close>
definition txt_done :: string where
  "txt_done = [CHR 0xE5, CHR 0xAE, CHR 0x8C, CHR 0xE6, CHR 0x88, CHR 0x90]"

text \<open>U+6CE8 U+610F.\<close>
definition txt_notice :: string where
  "txt_notice = [CHR 0xE6, CHR 0xB3, CHR 0xA8, CHR 0xE6, CHR 0x84, CHR 0x8F]"

subsection \<open>Window state\<close>

text \<open>
  The attributes of \<open>ImageMatrixApp\<close> that its handlers read or write. Labels and list
  widgets only display the state and are left out; \<open>dialogs\<close> is the sequence of message
  boxes shown so far; \<open>home\<close> is \<open>os.path.expanduser("~")\<close>.
\<close>

record ImageMatrixApp =
  home :: string
  merge_images :: "string list"
  slice_images :: "string list"
  stitch_thread :: "StitcherThread option"
  slicer_thread :: "SlicerThread option"
  tabs_currentIndex :: int
  m_radio :: merge_width
  m_custom_input :: string
  m_limit_slider :: slider
  m_split_slider :: slider
  m_start_btn_enabled :: bool
  s_radio :: slice_width
  s_custom_input :: string
  s_limit_slider :: slider
  s_count_slider :: slider
  s_smart_check :: bool
  s_start_btn_enabled :: bool
  dialogs :: "dialog list"

text \<open>\<open>__init__\<close> with \<open>initUI\<close>, \<open>init_merge_tab\<close> and \<open>init_slice_tab\<close>.\<close>

definition init_app :: "string \<Rightarrow> ImageMatrixApp" where
  "init_app h =
     \<lparr>home = h,
      merge_images = [],
      slice_images = [],
      stitch_thread = None,
      slicer_thread = None,
      tabs_currentIndex = 0,
      m_radio = M_original,
      m_custom_input = [],
      m_limit_slider = setValue 1 (setMaximum 5 (setMinimum 0 new_slider)),
      m_split_slider = setMaximum 1 (setMinimum 1 new_slider),
      m_start_btn_enabled = True,
      s_radio = S_original,
      s_custom_input = [],
      s_limit_slider = setValue 1 (setMaximum 5 (setMinimum 0 new_slider)),
      s_count_slider = setValue 5 (setMaximum 50 (setMinimum 1 new_slider)),
      s_smart_check = True,
      s_start_btn_enabled = True,
      dialogs = []\<rparr>"

definition warn :: "string \<Rightarrow> string \<Rightarrow> ImageMatrixApp \<Rightarrow> ImageMatrixApp" where
  "warn title body st = st\<lparr>dialogs := dialogs st @ [Warning title body]\<rparr>"

text \<open>The slice-tab loop of \<open>dropEvent\<close>: append each image that is not in the list yet.\<close>

fun append_new :: "string list \<Rightarrow> string list \<Rightarrow> string list" where
  "append_new [] imgs = imgs"
| "append_new (img # rest) imgs =
     append_new rest (if img \<in> set imgs then imgs else imgs @ [img])"

text \<open>
  \<open>dropEvent\<close>. \<open>sort_files\<close> is imported from \<open>sorter\<close> and is a parameter here.
  \<open>list(combined_set)\<close> enumerates the set in an order Python does not fix; \<open>remdups\<close> is
  one such enumeration.
\<close>

definition dropEvent ::
  "(string list \<Rightarrow> string list) \<Rightarrow> string list \<Rightarrow> ImageMatrixApp \<Rightarrow> ImageMatrixApp"
where
  "dropEvent sort_files files st =
     (let new_images = filter is_supported files in
      if new_images = [] then warn txt_invalid_file txt_only_supported st
      else if tabs_currentIndex st = 0 then
        (let sorted_images = sort_files (remdups (merge_images st @ new_images)) in
         st\<lparr>merge_images := sorted_images,
            m_split_slider :=
              setMaximum (max 1 (int (length sorted_images))) (m_split_slider st)\<rparr>)
      else st\<lparr>slice_images := append_new new_images (slice_images st)\<rparr>)"

definition clear_merge_list :: "ImageMatrixApp \<Rightarrow> ImageMatrixApp" where
  "clear_merge_list st =
     st\<lparr>merge_images := [], m_split_slider := setValue 1 (setMaximum 1 (m_split_slider st))\<rparr>"

definition clear_slice_list :: "ImageMatrixApp \<Rightarrow> ImageMatrixApp" where
  "clear_slice_list st = st\<lparr>slice_images := []\<rparr>"

definition desktop_path :: "ImageMatrixApp \<Rightarrow> string" where
  "desktop_path st = path_join (home st) ''Desktop''"

text \<open>\<open>start_stitching\<close>; each \<open>return\<close> of the source is a branch that starts no thread.\<close>

definition start_stitching :: "ImageMatrixApp \<Rightarrow> ImageMatrixApp" where
  "start_stitching st =
     (if merge_images st = [] then warn txt_hint txt_add_images_first st
      else
        let split_count = slider_value (m_split_slider st);
            width =
              (case m_radio st of
                 M_750 \<Rightarrow> Inr (Some 750)
               | M_1080 \<Rightarrow> Inr (Some 1080)
               | M_custom \<Rightarrow>
                   (let val_text = strip (m_custom_input st) in
                    if val_text = [] then Inl ()
                    else (case py_int val_text of None \<Rightarrow> Inl () | Some w \<Rightarrow> Inr (Some w)))
               | M_original \<Rightarrow> Inr None)
        in case width of
             Inl _ \<Rightarrow> warn txt_input_error txt_enter_valid_width st
           | Inr target_width \<Rightarrow>
               (let limit_val = slider_value (m_limit_slider st) * 200 in
                st\<lparr>m_start_btn_enabled := False,
                   stitch_thread :=
                     Some \<lparr>st_image_paths = merge_images st, st_output_dir = desktop_path st,
                           st_split_count = split_count, st_target_width = target_width,
                           st_max_kb = limit_val\<rparr>\<rparr>))"

definition on_stitching_finished :: "bool \<Rightarrow> string \<Rightarrow> ImageMatrixApp \<Rightarrow> ImageMatrixApp" where
  "on_stitching_finished success message st =
     (let st1 = st\<lparr>m_start_btn_enabled := True\<rparr> in
      if success then
        st1\<lparr>dialogs := dialogs st1 @ [Information txt_success (message @ txt_saved_to_desktop)]\<rparr>
      else
        st1\<lparr>dialogs := dialogs st1 @ [Critical txt_error (txt_stitch_failed @ message)]\<rparr>)"

text \<open>\<open>start_slicing\<close>.\<close>

definition start_slicing :: "ImageMatrixApp \<Rightarrow> ImageMatrixApp" where
  "start_slicing st =
     (if slice_images st = [] then warn txt_hint txt_add_slice_images_first st
      else
        let count = slider_value (s_count_slider st);
            smart_mode = s_smart_check st;
            width =
              (case s_radio st of
                 S_custom \<Rightarrow>
                   (let val_text = strip (s_custom_input st) in
                    if val_text = [] then Inr (Some 750)
                    else (case py_int val_text of None \<Rightarrow> Inl () | Some w \<Rightarrow> Inr (Some w)))
               | S_original \<Rightarrow> Inr None)
        in case width of
             Inl _ \<Rightarrow> warn txt_input_error txt_enter_valid_width st
           | Inr target_width \<Rightarrow>
               (let limit_val = slider_value (s_limit_slider st) * 200 in
                st\<lparr>s_start_btn_enabled := False,
                   slicer_thread :=
                     Some \<lparr>sl_image_paths = slice_images st, sl_output_dir = desktop_path st,
                           sl_count = count, sl_smart_mode = smart_mode,
                           sl_target_width = target_width, sl_max_kb = limit_val\<rparr>\<rparr>))"

definition on_slicing_finished :: "bool \<Rightarrow> string \<Rightarrow> ImageMatrixApp \<Rightarrow> ImageMatrixApp" where
  "on_slicing_finished success message st =
     (let st1 = st\<lparr>s_start_btn_enabled := True\<rparr> in
      if success then st1\<lparr>dialogs := dialogs st1 @ [Information txt_done message]\<rparr>
      else st1\<lparr>dialogs := dialogs st1 @ [Warning txt_notice message]\<rparr>)"

subsection \<open>Event loop\<close>

text \<open>
  What can happen to the window: the user drops files, presses a button (a disabled button
  takes no click), switches the tab, moves a slider (Qt bounds the value to the slider's
  range), picks a radio button, edits a width field or ticks the check box, and a worker's
  \<open>finished_signal\<close> arrives.
\<close>

datatype event =
  Drop "string list"
| Click_m_clear
| Click_m_start
| Click_s_clear
| Click_s_start
| Select_tab int
| Move_m_limit int
| Move_m_split int
| Move_s_limit int
| Move_s_count int
| Pick_m_radio merge_width
| Pick_s_radio slice_width
| Edit_m_custom string
| Edit_s_custom string
| Toggle_s_smart bool
| Stitching_finished bool string
| Slicing_finished bool string

fun handle ::
  "(string list \<Rightarrow> string list) \<Rightarrow> ImageMatrixApp \<Rightarrow> event \<Rightarrow> ImageMatrixApp"
where
  "handle sf st (Drop files) = dropEvent sf files st"
| "handle sf st Click_m_clear = clear_merge_list st"
| "handle sf st Click_m_start = (if m_start_btn_enabled st then start_stitching st else st)"
| "handle sf st Click_s_clear = clear_slice_list st"
| "handle sf st Click_s_start = (if s_start_btn_enabled st then start_slicing st else st)"
| "handle sf st (Select_tab i) = st\<lparr>tabs_currentIndex := i\<rparr>"
| "handle sf st (Move_m_limit v) = st\<lparr>m_limit_slider := setValue v (m_limit_slider st)\<rparr>"
| "handle sf st (Move_m_split v) = st\<lparr>m_split_slider := setValue v (m_split_slider st)\<rparr>"
| "handle sf st (Move_s_limit v) = st\<lparr>s_limit_slider := setValue v (s_limit_slider st)\<rparr>"
| "handle sf st (Move_s_count v) = st\<lparr>s_count_slider := setValue v (s_count_slider st)\<rparr>"
| "handle sf st (Pick_m_radio r) = st\<lparr>m_radio := r\<rparr>"
| "handle sf st (Pick_s_radio r) = st\<lparr>s_radio := r\<rparr>"
| "handle sf st (Edit_m_custom t) = st\<lparr>m_custom_input := t\<rparr>"
| "handle sf st (Edit_s_custom t) = st\<lparr>s_custom_input := t\<rparr>"
| "handle sf st (Toggle_s_smart b) = st\<lparr>s_smart_check := b\<rparr>"
| "handle sf st (Stitching_finished ok msg) = on_stitching_finished ok msg st"
| "handle sf st (Slicing_finished ok msg) = on_slicing_finished ok msg st"

definition run_events ::
  "(string list \<Rightarrow> string list) \<Rightarrow> string \<Rightarrow> event list \<Rightarrow> ImageMatrixApp"
where
  "run_events sf h evs = foldl (handle sf) (init_app h) evs"

section \<open>The core engines (sorter, stitcher, slicer)\<close>

text \<open>
  \<open>main.py\<close> imports \<open>sort_files\<close>, \<open>stitch_images\<close> and \<open>slice_image\<close> from the modules
  \<open>sorter\<close>, \<open>stitcher\<close> and \<open>slicer\<close>. The definitions of this section follow the
  specification of these engines (sections 3, 4 and 7).
\<close>

text \<open>Modelled from the spec: the engines are not among the sources. Section 7: the
  failures of the engines.\<close>

datatype error = DecodeError | EmptyInputError | InvalidGeometryError

subsection \<open>NaturalSequencer\<close>

text \<open>Modelled from the spec: \<open>sorter.sort_files\<close> is not among the sources. Section 4.1:
  a run of a file name is a digit run, compared as a number, or a run of other characters,
  compared as text. The runs of a name alternate, so two keys meet a digit run against a
  text run at their first run only, where the digit run goes first, as a name that starts
  with a digit does in plain text order against one that starts with a letter.\<close>

datatype chunk = Digits nat | Text string

instantiation chunk :: linorder
begin

fun less_eq_chunk :: "chunk \<Rightarrow> chunk \<Rightarrow> bool" where
  "less_eq_chunk (Digits a) (Digits b) = (a \<le> b)"
| "less_eq_chunk (Digits a) (Text t) = True"
| "less_eq_chunk (Text s) (Digits b) = False"
| "less_eq_chunk (Text s) (Text t) = (s \<le> t)"

definition less_chunk :: "chunk \<Rightarrow> chunk \<Rightarrow> bool" where
  "less_chunk x y = (x \<le> y \<and> \<not> y \<le> x)"

instance
proof
  fix x y z :: chunk
  show "(x < y) = (x \<le> y \<and> \<not> y \<le> x)"
    by (simp add: less_chunk_def)
  show "x \<le> x"
    by (cases x) simp_all
  show "x \<le> y \<Longrightarrow> y \<le> z \<Longrightarrow> x \<le> z"
    by (cases x; cases y; cases z) auto
  show "x \<le> y \<Longrightarrow> y \<le> x \<Longrightarrow> x = y"
    by (cases x; cases y) auto
  show "x \<le> y \<or> y \<le> x"
    by (cases x; cases y) auto
qed

end

text \<open>Modelled from the spec: \<open>sorter.sort_files\<close> is not among the sources. Section 4.1:
  the file name is split into alternating runs of digits and non-digits.\<close>

fun raw_runs :: "string \<Rightarrow> string list" where
  "raw_runs [] = []"
| "raw_runs (c # cs) =
     (case raw_runs cs of
        [] \<Rightarrow> [[c]]
      | r # rs \<Rightarrow> if is_digit c = is_digit (hd r) then (c # r) # rs else [c] # r # rs)"

text \<open>Modelled from the spec: \<open>sorter.sort_files\<close> is not among the sources. Section 4.1:
  a digit run counts as its number.\<close>

definition chunk_of :: "string \<Rightarrow> chunk" where
  "chunk_of r = (if r \<noteq> [] \<and> is_digit (hd r) then Digits (digits_value r) else Text r)"

text \<open>Modelled from the spec: \<open>sorter.sort_files\<close> is not among the sources. Section 4.1:
  the sort key of a file name.\<close>

definition natural_key :: "string \<Rightarrow> chunk list" where
  "natural_key name = map chunk_of (raw_runs name)"

text \<open>Modelled from the spec: \<open>sorter.sort_files\<close> is not among the sources. Section 4.1:
  keys are compared lexicographically, digit runs by their number and the other runs as
  text; equal keys are ordered by the file name as text.\<close>

definition sort_key_of :: "string \<Rightarrow> chunk list \<times> string" where
  "sort_key_of path = (natural_key (basename path), basename path)"

text \<open>Modelled from the spec: \<open>sorter.sort_files\<close> is not among the sources. Section 4.1 and
  section 6: \<open>order(paths) -> sequence<path>\<close>, here on a listing of the set. The sort is
  stable: two paths with one file name, which the key does not tell apart, stay in the
  order of the listing.\<close>

definition sort_files :: "string list \<Rightarrow> string list" where
  "sort_files paths = sort_key sort_key_of paths"

subsection \<open>SizeBudgetEncoder\<close>

text \<open>Modelled from the spec: the encoder is not among the sources. Section 4.2: an
  encoded byte stream, and what \<open>encode\<close> hands back: the stream, whether it meets the
  budget, and every candidate produced on the way, in order.\<close>

type_synonym blob = "char list"

record encoded =
  stream :: blob
  budget_met :: bool
  produced :: "blob list"

text \<open>Modelled from the spec: the encoder is not among the sources. Section 4.2: the
  search descends a fixed ladder of quality levels, encoding and measuring, until a
  candidate fits or the floor of the ladder is passed. \<open>tried\<close> collects every candidate
  produced, in order.\<close>

fun quality_search ::
  "('p \<Rightarrow> nat \<Rightarrow> blob) \<Rightarrow> nat \<Rightarrow> 'p \<Rightarrow> nat list \<Rightarrow> blob list \<Rightarrow> blob option \<times> blob list"
where
  "quality_search encode limit pixels [] tried = (None, tried)"
| "quality_search encode limit pixels (q # qs) tried =
     (let c = encode pixels q in
      if length c \<le> limit then (Some c, tried @ [c])
      else quality_search encode limit pixels qs (tried @ [c]))"

text \<open>Modelled from the spec: the encoder is not among the sources. Section 4.2: the
  best (smallest) candidate, the first of the shortest.\<close>

fun smallest :: "blob list \<Rightarrow> blob" where
  "smallest [] = []"
| "smallest [c] = c"
| "smallest (c # d # ds) = (let m = smallest (d # ds) in if length c \<le> length m then c else m)"

text \<open>Modelled from the spec: the encoder is not among the sources. Section 4.2: when the
  search fails at the floor, the bitmap is downscaled and the search starts again from the
  top, for a bounded number of rounds; then the smallest candidate is returned, flagged as
  budget not met.\<close>

fun budget_rounds ::
  "('p \<Rightarrow> nat \<Rightarrow> blob) \<Rightarrow> ('p \<Rightarrow> 'p) \<Rightarrow> nat \<Rightarrow> nat list \<Rightarrow> nat \<Rightarrow> 'p \<Rightarrow> blob list \<Rightarrow> encoded"
where
  "budget_rounds encode downscale limit ladder 0 pixels tried =
     (case quality_search encode limit pixels ladder tried of
        (Some c, tried') \<Rightarrow> \<lparr>stream = c, budget_met = True, produced = tried'\<rparr>
      | (None, tried') \<Rightarrow> \<lparr>stream = smallest tried', budget_met = False, produced = tried'\<rparr>)"
| "budget_rounds encode downscale limit ladder (Suc rounds_left) pixels tried =
     (case quality_search encode limit pixels ladder tried of
        (Some c, tried') \<Rightarrow> \<lparr>stream = c, budget_met = True, produced = tried'\<rparr>
      | (None, tried') \<Rightarrow>
          budget_rounds encode downscale limit ladder rounds_left (downscale pixels) tried')"

text \<open>Modelled from the spec: the encoder is not among the sources. Section 4.2: the
  bound on the downscale rounds.\<close>

definition max_downscale_rounds :: nat where
  "max_downscale_rounds = 6"

text \<open>Modelled from the spec: the encoder is not among the sources. Section 4.2:
  \<open>encode(pixels, limit_bytes?) -> bytes\<close>; a limit that is null or not positive encodes once
  at the fixed high quality.\<close>

definition size_budget_encode ::
  "('p \<Rightarrow> nat \<Rightarrow> blob) \<Rightarrow> ('p \<Rightarrow> 'p) \<Rightarrow> nat \<Rightarrow> nat list \<Rightarrow> 'p \<Rightarrow> int option \<Rightarrow> encoded"
where
  "size_budget_encode encode downscale high_quality ladder pixels limit_bytes =
     (case limit_bytes of
        None \<Rightarrow>
          \<lparr>stream = encode pixels high_quality, budget_met = True,
           produced = [encode pixels high_quality]\<rparr>
      | Some l \<Rightarrow>
          if l \<le> 0 then
            \<lparr>stream = encode pixels high_quality, budget_met = True,
             produced = [encode pixels high_quality]\<rparr>
          else budget_rounds encode downscale (nat l) ladder max_downscale_rounds pixels [])"

subsection \<open>StitchEngine: grouping\<close>

text \<open>Modelled from the spec: \<open>stitcher.stitch_images\<close> is not among the sources. Section
  3: a merge job.\<close>

record MergeJob =
  ordered_sources :: "string list"
  group_count :: int
  merge_target_width :: "int option"
  merge_size_limit_bytes :: "int option"

text \<open>Modelled from the spec: \<open>stitcher.stitch_images\<close> is not among the sources. Section
  4.3, edge cases: the group count is clamped to \<open>[1, len(ordered_sources)]\<close>.\<close>

definition clamp_group_count :: "nat \<Rightarrow> int \<Rightarrow> nat" where
  "clamp_group_count n g = nat (max 1 (min (int n) g))"

text \<open>Modelled from the spec: \<open>stitcher.stitch_images\<close> is not among the sources. Section
  4.3, step 3: sizes \<open>floor(n/g)\<close> or \<open>ceil(n/g)\<close>, the remainder going to the first
  groups.\<close>

definition group_sizes :: "nat \<Rightarrow> nat \<Rightarrow> nat list" where
  "group_sizes n g = replicate (n mod g) (n div g + 1) @ replicate (g - n mod g) (n div g)"

text \<open>Modelled from the spec: \<open>stitcher.stitch_images\<close> is not among the sources. Section
  4.3, step 3: contiguous groups of the given sizes, in reading order.\<close>

fun split_by :: "nat list \<Rightarrow> 'a list \<Rightarrow> 'a list list" where
  "split_by [] xs = []"
| "split_by (k # ks) xs = take k xs # split_by ks (drop k xs)"

text \<open>Modelled from the spec: \<open>stitcher.stitch_images\<close> is not among the sources. Section
  4.3: the contiguous groups of a job, or \<open>EmptyInputError\<close>.\<close>

definition stitch_groups :: "MergeJob \<Rightarrow> error + string list list" where
  "stitch_groups job =
     (if ordered_sources job = [] then Inl EmptyInputError
      else
        let n = length (ordered_sources job);
            g = clamp_group_count n (group_count job)
        in Inr (split_by (group_sizes n g) (ordered_sources job)))"

subsection \<open>SliceEngine: uniform cuts\<close>

text \<open>Modelled from the spec: \<open>slicer.slice_image\<close> is not among the sources. Section 4.4,
  step 2: \<open>ideal_height = total_height / piece_count\<close>, an exact quotient.\<close>

definition ideal_height :: "nat \<Rightarrow> nat \<Rightarrow> rat" where
  "ideal_height total_height piece_count = of_nat total_height / of_nat piece_count"

text \<open>Modelled from the spec: \<open>slicer.slice_image\<close> is not among the sources. Section 4.4,
  step 3: cut \<open>i\<close> is the \<open>i\<close>-th multiple of the ideal height, rounded to a row (half up, as
  section 4.3 rounds).\<close>

definition cut_row :: "nat \<Rightarrow> nat \<Rightarrow> nat \<Rightarrow> nat" where
  "cut_row total_height piece_count i =
     nat (round (of_nat i * ideal_height total_height piece_count))"

text \<open>Modelled from the spec: \<open>slicer.slice_image\<close> is not among the sources. Section 4.4,
  step 3: the \<open>piece_count - 1\<close> cuts.\<close>

definition uniform_cuts :: "nat \<Rightarrow> nat \<Rightarrow> nat list" where
  "uniform_cuts total_height piece_count =
     map (cut_row total_height piece_count) [1..<piece_count]"

text \<open>Modelled from the spec: \<open>slicer.slice_image\<close> is not among the sources. Section 3
  and section 4.4, step 5: a piece is a contiguous row range \<open>(top, bottom)\<close>, \<open>bottom\<close>
  excluded; its rows and its height; the pieces between consecutive bounds.\<close>

type_synonym piece = "nat \<times> nat"

definition piece_rows :: "piece \<Rightarrow> nat list" where
  "piece_rows p = [fst p..<snd p]"

definition piece_height :: "piece \<Rightarrow> nat" where
  "piece_height p = snd p - fst p"

fun pieces_between :: "nat list \<Rightarrow> piece list" where
  "pieces_between (a # b # bs) = (a, b) # pieces_between (b # bs)"
| "pieces_between bs = []"

text \<open>Modelled from the spec: \<open>slicer.slice_image\<close> is not among the sources. Section 4.4
  with \<open>smart_mode\<close> false: the pieces lie between consecutive cuts, the last one running to
  the last row; a source with fewer rows than pieces is \<open>InvalidGeometryError\<close>.\<close>

definition slice_uniform :: "nat \<Rightarrow> nat \<Rightarrow> error + piece list" where
  "slice_uniform total_height piece_count =
     (if piece_count < 1 \<or> total_height < piece_count then Inl InvalidGeometryError
      else Inr (pieces_between (0 # uniform_cuts total_height piece_count @ [total_height])))"

subsection \<open>Invariants of the event loop\<close>

text \<open>The split slider ranges over \<open>1..max(1, len(merge_images))\<close>, and the stitch thread,
  once created, holds a split count between 1 and the number of its images.\<close>

definition split_invariant :: "ImageMatrixApp \<Rightarrow> bool" where
  "split_invariant st =
     (minimum (m_split_slider st) = 1
      \<and> maximum (m_split_slider st) = max 1 (int (length (merge_images st)))
      \<and> 1 \<le> slider_value (m_split_slider st)
      \<and> slider_value (m_split_slider st) \<le> maximum (m_split_slider st)
      \<and> (case stitch_thread st of
            None \<Rightarrow> True
          | Some job \<Rightarrow>
              1 \<le> st_split_count job \<and> st_split_count job \<le> int (length (st_image_paths job))))"


subsection \<open>The limit label\<close>





section \<open>Example inputs\<close>

definition example_slicer :: SlicerThread where
  "example_slicer =
     \<lparr>sl_image_paths = [''/in/a.png'', ''/in/b.psd'', ''/in/c.jpg''], sl_output_dir = ''/out'',
      sl_count = 5, sl_smart_mode = True, sl_target_width = None, sl_max_kb = 200\<rparr>"

text \<open>An engine that fails to decode \<open>b.psd\<close> and returns the failure.\<close>

definition returning_engine :: slice_engine where
  "returning_engine path output_dir pieces smart_mode target_width max_kb =
     (if path = ''/in/b.psd'' then Inr (False, ''cannot decode'') else Inr (True, ''ok''))"

text \<open>An engine that returns a failure for \<open>b.psd\<close> and raises on \<open>c.jpg\<close>.\<close>

definition raising_engine :: slice_engine where
  "raising_engine path output_dir pieces smart_mode target_width max_kb =
     (if path = ''/in/b.psd'' then Inr (False, ''cannot decode'')
      else if path = ''/in/c.jpg'' then Inl (Exception ''out of memory'')
      else Inr (True, ''ok''))"



text \<open>A session: two images and a text file are dropped on the merge tab, the split
  slider is pushed to 5, the limit slider to 3, and the start button is pressed.\<close>

definition example_session :: "event list" where
  "example_session =
     [Drop [''/x/b2.PNG'', ''/x/b10.png'', ''/x/notes.txt''], Move_m_split 5, Move_m_limit 3,
      Click_m_start]"

text \<open>A sorter that keeps the order it is given.\<close>

definition keep_order :: "string list \<Rightarrow> string list" where
  "keep_order paths = paths"

text \<open>A window with two images on each tab, the custom width picked on both tabs and both
  width fields empty.\<close>

definition example_window :: ImageMatrixApp where
  "example_window =
     (init_app ''/home/u'')
       \<lparr>merge_images := [''/x/1.png'', ''/x/2.png''],
        slice_images := [''/x/long.png''],
        m_radio := M_custom, s_radio := S_custom\<rparr>"

text \<open>A merge job with seven sources and three groups.\<close>

definition seven_in_three :: MergeJob where
  "seven_in_three =
     \<lparr>ordered_sources = [''1.png'', ''2.png'', ''3.png'', ''4.png'', ''5.png'', ''6.png'', ''7.png''],
      group_count = 3, merge_target_width = None, merge_size_limit_bytes = None\<rparr>"

text \<open>A bitmap is stood for by its side length; its encoding at quality \<open>q\<close> has
  \<open>side * q + 2\<close> bytes, and downscaling takes one off the side. No encoding has fewer than
  two bytes.\<close>

definition toy_encode :: "nat \<Rightarrow> nat \<Rightarrow> blob" where
  "toy_encode side q = replicate (side * q + 2) (CHR ''x'')"

definition toy_downscale :: "nat \<Rightarrow> nat" where
  "toy_downscale side = side - 1"




section \<open>Properties of the worker threads\<close>

lemma slice_loop_returns:
  "\<forall>p \<in> set ps. f p = Inr (r p) \<Longrightarrow>
   slice_loop f ps sc errs =
     Inr (sc + length (filter (\<lambda>p. fst (r p)) ps),
          errs @ map (\<lambda>p. basename p @ '': '' @ snd (r p)) (filter (\<lambda>p. \<not> fst (r p)) ps))"
proof (induction ps arbitrary: sc errs)
  case Nil
  then show ?case by simp
next
  case (Cons p ps)
  obtain s m where rp: "r p = (s, m)" by (cases "r p")
  from Cons.prems have fp: "f p = Inr (s, m)" and rest: "\<forall>q \<in> set ps. f q = Inr (r q)"
    by (simp_all add: rp)
  show ?case using Cons.IH [OF rest] by (simp add: fp rp)
qed


lemma filter_split_length:
  "length (filter P xs) + length (filter (\<lambda>x. \<not> P x) xs) = length xs"
  by (induction xs) auto

text \<open>
  The report of a batch in which every engine call returns. With \<open>ok\<close> the sources whose
  call returned success and \<open>failed\<close> the others: a mixed batch emits success with the
  count \<open>len(ok)/len(paths)\<close> and one line \<open>basename: message\<close> per failed source; a batch
  with no failed source emits success; the run emits failure exactly when the batch is not
  empty and no source succeeded.
\<close>

lemma SlicerThread_run_returns:
  assumes "\<forall>p \<in> set (sl_image_paths t). slice_call slice_image t p = Inr (r p)"
  shows "SlicerThread_run slice_image t =
     (let paths = sl_image_paths t;
          ok = filter (\<lambda>p. fst (r p)) paths;
          errors = map (\<lambda>p. basename p @ '': '' @ snd (r p)) (filter (\<lambda>p. \<not> fst (r p)) paths)
      in if length ok = length paths then
           [(True, msg_all_ok_pre @ str_nat (length ok) @ msg_all_ok_post)]
         else if ok \<noteq> [] then
           [(True, msg_partial_pre @ str_nat (length ok) @ ''/'' @ str_nat (length paths)
                   @ msg_partial_post @ join [CHR 0x0A] errors)]
         else [(False, msg_all_failed @ join [CHR 0x0A] errors)])"
  unfolding SlicerThread_run_def Let_def
  by (simp add: slice_loop_returns [OF assms])

text \<open>
  C1, for the batches in which every engine call returns. In such a batch, when at least
  one source succeeds and at least one fails, the run reports overall success with the count
  of succeeded sources out of the total and the failed sources listed by file name with
  their messages; the run reports overall failure exactly when the batch is not empty and
  every source fails.
\<close>

theorem SlicerThread_run_batch_report:
  assumes "\<forall>p \<in> set (sl_image_paths t). slice_call slice_image t p = Inr (r p)"
  shows "(filter (\<lambda>p. fst (r p)) (sl_image_paths t) \<noteq> [] \<and>
          filter (\<lambda>p. \<not> fst (r p)) (sl_image_paths t) \<noteq> [] \<longrightarrow>
            SlicerThread_run slice_image t =
              [(True, msg_partial_pre
                      @ str_nat (length (filter (\<lambda>p. fst (r p)) (sl_image_paths t))) @ ''/''
                      @ str_nat (length (sl_image_paths t)) @ msg_partial_post
                      @ join [CHR 0x0A]
                          (map (\<lambda>p. basename p @ '': '' @ snd (r p))
                             (filter (\<lambda>p. \<not> fst (r p)) (sl_image_paths t))))])
       \<and> ((\<exists>msg. SlicerThread_run slice_image t = [(False, msg)]) \<longleftrightarrow>
            sl_image_paths t \<noteq> [] \<and> filter (\<lambda>p. fst (r p)) (sl_image_paths t) = [])"
proof -
  let ?paths = "sl_image_paths t"
  let ?ok = "filter (\<lambda>p. fst (r p)) ?paths"
  let ?bad = "filter (\<lambda>p. \<not> fst (r p)) ?paths"
  have len: "length ?ok + length ?bad = length ?paths"
    by (rule filter_split_length)
  have run: "SlicerThread_run slice_image t =
     (if length ?ok = length ?paths then
        [(True, msg_all_ok_pre @ str_nat (length ?ok) @ msg_all_ok_post)]
      else if ?ok \<noteq> [] then
        [(True, msg_partial_pre @ str_nat (length ?ok) @ ''/'' @ str_nat (length ?paths)
                @ msg_partial_post
                @ join [CHR 0x0A] (map (\<lambda>p. basename p @ '': '' @ snd (r p)) ?bad))]
      else [(False, msg_all_failed
                    @ join [CHR 0x0A] (map (\<lambda>p. basename p @ '': '' @ snd (r p)) ?bad))])"
    using SlicerThread_run_returns [OF assms] by (simp add: Let_def)
  have mixed: "?ok \<noteq> [] \<and> ?bad \<noteq> [] \<longrightarrow> length ?ok \<noteq> length ?paths"
    using len by auto
  have part1: "?ok \<noteq> [] \<and> ?bad \<noteq> [] \<longrightarrow>
      SlicerThread_run slice_image t =
        [(True, msg_partial_pre @ str_nat (length ?ok) @ ''/'' @ str_nat (length ?paths)
                @ msg_partial_post
                @ join [CHR 0x0A] (map (\<lambda>p. basename p @ '': '' @ snd (r p)) ?bad))]"
    using mixed by (simp add: run)
  have part2: "(\<exists>msg. SlicerThread_run slice_image t = [(False, msg)]) \<longleftrightarrow>
      ?paths \<noteq> [] \<and> ?ok = []"
  proof (cases "length ?ok = length ?paths")
    case True
    then have "?paths \<noteq> [] \<longrightarrow> ?ok \<noteq> []" by auto
    with True show ?thesis by (auto simp: run)
  next
    case False
    then have "?paths \<noteq> []" by auto
    with False show ?thesis by (simp add: run)
  qed
  from part1 part2 show ?thesis by blast
qed

theorem SlicerThread_run_batch_report_witness:
  "SlicerThread_run returning_engine example_slicer =
     [(True, msg_partial_pre @ ''2/3'' @ msg_partial_post @ ''b.psd: cannot decode'')]"
proof -
  let ?r = "\<lambda>p. if p = ''/in/b.psd'' then (False, ''cannot decode'') else (True, ''ok'')"
  have calls: "\<forall>p \<in> set (sl_image_paths example_slicer).
      slice_call returning_engine example_slicer p = Inr (?r p)"
    by (simp add: example_slicer_def slice_call_def returning_engine_def)
  have two: "str_nat (Suc (Suc 0)) = ''2''" and three: "str_nat (Suc (Suc (Suc 0))) = ''3''"
    by code_simp+
  have base: "basename ''/in/b.psd'' = ''b.psd''"
    by (simp add: basename_def)
  from SlicerThread_run_batch_report [OF calls]
  show ?thesis
    by (simp add: example_slicer_def two three base)
qed

theorem SlicerThread_run_raise_counterexample:
  "slice_call raising_engine example_slicer ''/in/a.png'' = Inr (True, ''ok'')
   \<and> slice_call raising_engine example_slicer ''/in/b.psd'' = Inr (False, ''cannot decode'')
   \<and> slice_call raising_engine example_slicer ''/in/c.jpg'' = Inl (Exception ''out of memory'')
   \<and> SlicerThread_run raising_engine example_slicer = [(False, ''out of memory'')]"
  by (simp add: SlicerThread_run_def example_slicer_def slice_call_def raising_engine_def)





section \<open>Properties of the window\<close>

lemmas slider_ops = setValue_def setRange_def setMinimum_def setMaximum_def bound_def new_slider_def

text \<open>The three ways \<open>start_stitching\<close> ends.\<close>

lemma start_stitching_cases:
  "(merge_images st = [] \<and> start_stitching st = warn txt_hint txt_add_images_first st)
   \<or> (merge_images st \<noteq> [] \<and> m_radio st = M_custom
       \<and> start_stitching st = warn txt_input_error txt_enter_valid_width st)
   \<or> (\<exists>w. merge_images st \<noteq> [] \<and>
         start_stitching st =
           st\<lparr>m_start_btn_enabled := False,
              stitch_thread :=
                Some \<lparr>st_image_paths = merge_images st, st_output_dir = desktop_path st,
                      st_split_count = slider_value (m_split_slider st), st_target_width = w,
                      st_max_kb = slider_value (m_limit_slider st) * 200\<rparr>\<rparr>)"
proof (cases "merge_images st = []")
  case True
  then show ?thesis by (simp add: start_stitching_def)
next
  case False
  then show ?thesis
    by (cases "m_radio st"; cases "py_int (strip (m_custom_input st))")
       (auto simp: start_stitching_def Let_def)
qed

lemma start_slicing_cases:
  "(slice_images st = [] \<and> start_slicing st = warn txt_hint txt_add_slice_images_first st)
   \<or> (slice_images st \<noteq> [] \<and> s_radio st = S_custom
       \<and> start_slicing st = warn txt_input_error txt_enter_valid_width st)
   \<or> (\<exists>w. slice_images st \<noteq> [] \<and>
         start_slicing st =
           st\<lparr>s_start_btn_enabled := False,
              slicer_thread :=
                Some \<lparr>sl_image_paths = slice_images st, sl_output_dir = desktop_path st,
                      sl_count = slider_value (s_count_slider st),
                      sl_smart_mode = s_smart_check st, sl_target_width = w,
                      sl_max_kb = slider_value (s_limit_slider st) * 200\<rparr>\<rparr>)"
proof (cases "slice_images st = []")
  case True
  then show ?thesis by (simp add: start_slicing_def)
next
  case False
  then show ?thesis
    by (cases "s_radio st"; cases "py_int (strip (s_custom_input st))")
       (auto simp: start_slicing_def Let_def)
qed

lemma split_invariant_init: "split_invariant (init_app h)"
  by (simp add: split_invariant_def init_app_def slider_ops)

lemma split_invariant_warn: "split_invariant (warn a b st) = split_invariant st"
  by (simp add: split_invariant_def warn_def)

lemma split_invariant_dropEvent:
  "split_invariant st \<Longrightarrow> split_invariant (dropEvent sf files st)"
  by (auto simp: split_invariant_def dropEvent_def warn_def Let_def slider_ops
      split: option.splits)

lemma split_invariant_clear:
  "split_invariant st \<Longrightarrow> split_invariant (clear_merge_list st)"
  by (auto simp: split_invariant_def clear_merge_list_def slider_ops split: option.splits)

lemma split_invariant_start_stitching:
  assumes "split_invariant st"
  shows "split_invariant (start_stitching st)"
proof -
  from start_stitching_cases [of st] show ?thesis
  proof (elim disjE conjE exE)
    fix w
    assume ne: "merge_images st \<noteq> []"
      and eq: "start_stitching st =
           st\<lparr>m_start_btn_enabled := False,
              stitch_thread :=
                Some \<lparr>st_image_paths = merge_images st, st_output_dir = desktop_path st,
                      st_split_count = slider_value (m_split_slider st), st_target_width = w,
                      st_max_kb = slider_value (m_limit_slider st) * 200\<rparr>\<rparr>"
    from ne have "max 1 (int (length (merge_images st))) = int (length (merge_images st))"
      by (cases "merge_images st") simp_all
    with assms show ?thesis
      unfolding eq by (simp add: split_invariant_def)
  qed (simp_all add: split_invariant_warn assms)
qed

lemma split_invariant_start_slicing:
  assumes "split_invariant st"
  shows "split_invariant (start_slicing st)"
proof -
  from start_slicing_cases [of st] show ?thesis
  proof (elim disjE conjE exE)
    fix w
    assume eq: "start_slicing st =
           st\<lparr>s_start_btn_enabled := False,
              slicer_thread :=
                Some \<lparr>sl_image_paths = slice_images st, sl_output_dir = desktop_path st,
                      sl_count = slider_value (s_count_slider st),
                      sl_smart_mode = s_smart_check st, sl_target_width = w,
                      sl_max_kb = slider_value (s_limit_slider st) * 200\<rparr>\<rparr>"
    from assms show ?thesis
      unfolding eq by (simp add: split_invariant_def)
  qed (simp_all add: split_invariant_warn assms)
qed

lemma split_invariant_handle:
  assumes "split_invariant st"
  shows "split_invariant (handle sf st ev)"
proof (cases ev)
  case (Drop files)
  with assms show ?thesis by (simp add: split_invariant_dropEvent)
next
  case Click_m_clear
  with assms show ?thesis by (simp add: split_invariant_clear)
next
  case Click_m_start
  with assms show ?thesis by (simp add: split_invariant_start_stitching)
next
  case Click_s_start
  with assms show ?thesis by (simp add: split_invariant_start_slicing)
next
  case (Move_m_split v)
  with assms show ?thesis
    by (auto simp: split_invariant_def slider_ops split: option.splits)
next
  case (Stitching_finished ok msg)
  with assms show ?thesis
    by (simp add: split_invariant_def on_stitching_finished_def Let_def)
next
  case (Slicing_finished ok msg)
  with assms show ?thesis
    by (simp add: split_invariant_def on_slicing_finished_def Let_def)
qed (use assms in \<open>simp_all add: split_invariant_def clear_slice_list_def\<close>)

lemma split_invariant_foldl:
  "split_invariant st \<Longrightarrow> split_invariant (foldl (handle sf) st evs)"
  by (induction evs arbitrary: st) (simp_all add: split_invariant_handle)

lemma split_invariant_run_events: "split_invariant (run_events sf h evs)"
  unfolding run_events_def by (rule split_invariant_foldl [OF split_invariant_init])








text \<open>
  C8. In every state the event loop reaches, the split slider has minimum 1 and maximum
  \<open>max(1, len(merge_images))\<close> with its value between them, also right after a drop; the
  stitch thread, whenever one has been created (by the last event or by a press of the
  start button now), holds a split count between 1 and the number of its images; and
  clearing the list leaves the slider at maximum 1 and value 1 with no image loaded.
\<close>

theorem split_count_within_images:
  "(let st = run_events sf h evs in
      minimum (m_split_slider st) = 1
      \<and> maximum (m_split_slider st) = max 1 (int (length (merge_images st)))
      \<and> 1 \<le> slider_value (m_split_slider st)
      \<and> slider_value (m_split_slider st) \<le> maximum (m_split_slider st)
      \<and> minimum (m_split_slider (dropEvent sf files st)) = 1
      \<and> maximum (m_split_slider (dropEvent sf files st))
          = max 1 (int (length (merge_images (dropEvent sf files st))))
      \<and> (\<forall>job. stitch_thread st = Some job \<longrightarrow>
            1 \<le> st_split_count job \<and> st_split_count job \<le> int (length (st_image_paths job)))
      \<and> (\<forall>job. stitch_thread (start_stitching st) = Some job \<longrightarrow>
            1 \<le> st_split_count job \<and> st_split_count job \<le> int (length (st_image_paths job)))
      \<and> merge_images (clear_merge_list st) = []
      \<and> m_split_slider (clear_merge_list st) = \<lparr>minimum = 1, maximum = 1, slider_value = 1\<rparr>)"
proof -
  let ?st = "run_events sf h evs"
  have inv: "split_invariant ?st"
    by (rule split_invariant_run_events)
  have drop: "split_invariant (dropEvent sf files ?st)"
    by (rule split_invariant_dropEvent [OF inv])
  have start: "split_invariant (start_stitching ?st)"
    by (rule split_invariant_start_stitching [OF inv])
  have a: "minimum (m_split_slider ?st) = 1
      \<and> maximum (m_split_slider ?st) = max 1 (int (length (merge_images ?st)))
      \<and> 1 \<le> slider_value (m_split_slider ?st)
      \<and> slider_value (m_split_slider ?st) \<le> maximum (m_split_slider ?st)"
    using inv by (simp add: split_invariant_def)
  have b: "minimum (m_split_slider (dropEvent sf files ?st)) = 1
      \<and> maximum (m_split_slider (dropEvent sf files ?st))
          = max 1 (int (length (merge_images (dropEvent sf files ?st))))"
    using drop by (simp add: split_invariant_def)
  have c: "\<forall>job. stitch_thread ?st = Some job \<longrightarrow>
            1 \<le> st_split_count job \<and> st_split_count job \<le> int (length (st_image_paths job))"
    using inv by (auto simp: split_invariant_def)
  have d: "\<forall>job. stitch_thread (start_stitching ?st) = Some job \<longrightarrow>
            1 \<le> st_split_count job \<and> st_split_count job \<le> int (length (st_image_paths job))"
    using start by (auto simp: split_invariant_def)
  have e: "merge_images (clear_merge_list ?st) = []
      \<and> m_split_slider (clear_merge_list ?st) = \<lparr>minimum = 1, maximum = 1, slider_value = 1\<rparr>"
    using a by (simp add: clear_merge_list_def slider_ops)
  from a b c d e show ?thesis
    unfolding Let_def by blast
qed

theorem split_count_within_images_witness:
  "stitch_thread (run_events keep_order ''/home/u'' example_session)
     = Some \<lparr>st_image_paths = [''/x/b2.PNG'', ''/x/b10.png''], st_output_dir = ''/home/u/Desktop'',
             st_split_count = 2, st_target_width = None, st_max_kb = 600\<rparr>
   \<and> 1 \<le> st_split_count (the (stitch_thread (run_events keep_order ''/home/u'' example_session)))
   \<and> st_split_count (the (stitch_thread (run_events keep_order ''/home/u'' example_session)))
       \<le> int (length (st_image_paths
             (the (stitch_thread (run_events keep_order ''/home/u'' example_session)))))"
proof -
  have job: "stitch_thread (run_events keep_order ''/home/u'' example_session)
     = Some \<lparr>st_image_paths = [''/x/b2.PNG'', ''/x/b10.png''], st_output_dir = ''/home/u/Desktop'',
             st_split_count = 2, st_target_width = None, st_max_kb = 600\<rparr>"
    by code_simp
  from split_count_within_images [of keep_order "''/home/u''" example_session "[]"]
  have "\<forall>job. stitch_thread (run_events keep_order ''/home/u'' example_session) = Some job \<longrightarrow>
            1 \<le> st_split_count job \<and> st_split_count job \<le> int (length (st_image_paths job))"
    unfolding Let_def by blast
  with job show ?thesis by simp
qed







text \<open>
  C10. With images on the slice tab, the custom width picked and the width field empty (or
  blank), \<open>start_slicing\<close> shows no dialog and creates the thread with target width 750.
  With images on the merge tab, the custom width picked and the width field empty,
  \<open>start_stitching\<close> shows the input-error warning and creates no thread: but for the
  warning the state is unchanged.
\<close>

theorem empty_custom_width:
  "(slice_images st \<noteq> [] \<and> s_radio st = S_custom \<and> strip (s_custom_input st) = [] \<longrightarrow>
      start_slicing st =
        st\<lparr>s_start_btn_enabled := False,
           slicer_thread :=
             Some \<lparr>sl_image_paths = slice_images st, sl_output_dir = desktop_path st,
                   sl_count = slider_value (s_count_slider st),
                   sl_smart_mode = s_smart_check st, sl_target_width = Some 750,
                   sl_max_kb = slider_value (s_limit_slider st) * 200\<rparr>\<rparr>)
   \<and> (merge_images st \<noteq> [] \<and> m_radio st = M_custom \<and> strip (m_custom_input st) = [] \<longrightarrow>
      start_stitching st = st\<lparr>dialogs := dialogs st @ [Warning txt_input_error txt_enter_valid_width]\<rparr>)"
  by (simp add: start_slicing_def start_stitching_def warn_def Let_def)

theorem empty_custom_width_witness:
  "start_slicing example_window =
     example_window
       \<lparr>s_start_btn_enabled := False,
        slicer_thread :=
          Some \<lparr>sl_image_paths = [''/x/long.png''], sl_output_dir = ''/home/u/Desktop'',
                sl_count = 5, sl_smart_mode = True, sl_target_width = Some 750,
                sl_max_kb = 200\<rparr>\<rparr>
   \<and> start_stitching example_window =
       example_window\<lparr>dialogs := [Warning txt_input_error txt_enter_valid_width]\<rparr>"
proof -
  have s: "slice_images example_window \<noteq> [] \<and> s_radio example_window = S_custom
      \<and> strip (s_custom_input example_window) = []"
    by (simp add: example_window_def init_app_def strip_def)
  have m: "merge_images example_window \<noteq> [] \<and> m_radio example_window = M_custom
      \<and> strip (m_custom_input example_window) = []"
    by (simp add: example_window_def init_app_def strip_def)
  have vals: "slice_images example_window = [''/x/long.png'']"
      "desktop_path example_window = ''/home/u/Desktop''"
      "slider_value (s_count_slider example_window) = 5"
      "s_smart_check example_window = True"
      "slider_value (s_limit_slider example_window) = 1"
      "dialogs example_window = []"
    by (simp_all add: example_window_def init_app_def desktop_path_def path_join_def slider_ops)
  from empty_custom_width [of example_window] s m show ?thesis
    by (simp add: vals)
qed

section \<open>Properties of the grouping\<close>

lemma length_group_sizes: "0 < g \<Longrightarrow> length (group_sizes n g) = g"
  by (simp add: group_sizes_def less_imp_le)

lemma sum_list_group_sizes: "0 < g \<Longrightarrow> sum_list (group_sizes n g) = n"
proof -
  assume g: "0 < g"
  have le: "n mod g \<le> g" using g by (simp add: less_imp_le)
  have "sum_list (group_sizes n g) = (n mod g) * (n div g + 1) + (g - n mod g) * (n div g)"
    by (simp add: group_sizes_def sum_list_replicate)
  also have "\<dots> = n mod g + (n mod g + (g - n mod g)) * (n div g)"
    by (simp add: algebra_simps)
  also have "\<dots> = n mod g + g * (n div g)"
    using le by simp
  also have "\<dots> = n" by simp
  finally show ?thesis .
qed

lemma length_split_by: "length (split_by ks xs) = length ks"
  by (induction ks arbitrary: xs) simp_all

lemma concat_split_by: "concat (split_by ks xs) = take (sum_list ks) xs"
  by (induction ks arbitrary: xs) (simp_all add: take_add)

lemma map_length_split_by:
  "sum_list ks \<le> length xs \<Longrightarrow> map length (split_by ks xs) = ks"
  by (induction ks arbitrary: xs) simp_all

lemma clamp_group_count_range:
  "0 < n \<Longrightarrow> 1 \<le> clamp_group_count n g \<and> clamp_group_count n g \<le> n"
  by (auto simp: clamp_group_count_def min_def max_def)

lemma clamp_group_count_id:
  "1 \<le> g \<Longrightarrow> g \<le> int n \<Longrightarrow> int (clamp_group_count n g) = g"
  by (simp add: clamp_group_count_def)

lemma floor_ceiling_quotient:
  assumes "0 < g"
  shows "\<lfloor>of_nat n / of_nat g :: rat\<rfloor> = int (n div g)"
    and "\<lceil>of_nat n / of_nat g :: rat\<rceil> = int (if n mod g = 0 then n div g else n div g + 1)"
proof -
  show fl: "\<lfloor>of_nat n / of_nat g :: rat\<rfloor> = int (n div g)"
    by (simp add: floor_divide_of_nat_eq)
  have g0: "(of_nat g :: rat) > 0" using assms by simp
  have split: "(of_nat n :: rat) = of_nat (n div g) * of_nat g + of_nat (n mod g)"
    by (metis of_nat_add of_nat_mult div_mult_mod_eq)
  have quot: "(of_nat n / of_nat g :: rat) = of_nat (n div g) + of_nat (n mod g) / of_nat g"
    using g0 by (subst split) (simp add: add_divide_distrib)
  show "\<lceil>of_nat n / of_nat g :: rat\<rceil> = int (if n mod g = 0 then n div g else n div g + 1)"
  proof (cases "n mod g = 0")
    case True
    then show ?thesis by (simp add: quot)
  next
    case False
    have lt: "n mod g < g" using assms by simp
    have pos: "0 < (of_nat (n mod g) / of_nat g :: rat)"
      using False g0 by simp
    have le1: "(of_nat (n mod g) / of_nat g :: rat) \<le> 1"
      using lt g0 by (simp add: less_imp_le)
    have "\<lceil>of_nat (n mod g) / of_nat g :: rat\<rceil> = 1"
      using pos le1 by (simp add: ceiling_eq_iff)
    moreover have "\<lceil>of_nat (n mod g) / of_nat g + of_int (int (n div g)) :: rat\<rceil>
        = \<lceil>of_nat (n mod g) / of_nat g :: rat\<rceil> + int (n div g)"
      by (rule ceiling_add_of_int)
    ultimately have "\<lceil>of_nat n / of_nat g :: rat\<rceil> = int (n div g) + 1"
      unfolding quot by (simp add: add.commute)
    with False show ?thesis by simp
  qed
qed

text \<open>A job without sources is refused (the contract of section 4.3), whatever its group
  count.\<close>

lemma stitch_groups_empty:
  "ordered_sources job = [] \<Longrightarrow> stitch_groups job = Inl EmptyInputError"
  by (simp add: stitch_groups_def)

text \<open>
  C3. For every MergeJob with \<open>n\<close> ordered sources, \<open>n \<ge> 1\<close>, the engine forms \<open>g\<close> groups,
  where \<open>g\<close> is the group count of the job as section 4.3 takes it, clamped to \<open>[1, n]\<close>,
  which leaves every count from 1 to \<open>n\<close> as it is: the groups are contiguous and in
  reading order (their concatenation is the source list), none is empty, each has
  \<open>floor(n/g)\<close> or \<open>ceil(n/g)\<close> members, and the first \<open>n mod g\<close> groups are the larger ones.
\<close>

theorem stitch_groups_partition:
  assumes "ordered_sources job \<noteq> []"
  shows "\<exists>groups. stitch_groups job = Inr groups
     \<and> (let n = length (ordered_sources job); g = clamp_group_count n (group_count job) in
        1 \<le> g \<and> g \<le> n
        \<and> (1 \<le> group_count job \<and> group_count job \<le> int n \<longrightarrow> int g = group_count job)
        \<and> length groups = g
        \<and> concat groups = ordered_sources job
        \<and> map length groups = replicate (n mod g) (n div g + 1) @ replicate (g - n mod g) (n div g)
        \<and> (\<forall>grp \<in> set groups.
              int (length grp) = \<lfloor>of_nat n / of_nat g :: rat\<rfloor>
              \<or> int (length grp) = \<lceil>of_nat n / of_nat g :: rat\<rceil>)
        \<and> (\<forall>grp \<in> set groups. grp \<noteq> []))"
proof -
  let ?xs = "ordered_sources job"
  let ?n = "length ?xs"
  let ?g = "clamp_group_count ?n (group_count job)"
  let ?groups = "split_by (group_sizes ?n ?g) ?xs"
  from assms have n: "0 < ?n" by simp
  from clamp_group_count_range [OF n] have g1: "1 \<le> ?g" and gn: "?g \<le> ?n" by simp_all
  from g1 have g: "0 < ?g" by simp
  have run: "stitch_groups job = Inr ?groups"
    using assms by (simp add: stitch_groups_def Let_def)
  have same: "1 \<le> group_count job \<and> group_count job \<le> int ?n \<longrightarrow> int ?g = group_count job"
    by (simp add: clamp_group_count_id)
  have len: "length ?groups = ?g"
    by (simp add: length_split_by length_group_sizes [OF g])
  have cat: "concat ?groups = ?xs"
    by (simp add: concat_split_by sum_list_group_sizes [OF g])
  have sizes: "map length ?groups = group_sizes ?n ?g"
    by (rule map_length_split_by) (simp add: sum_list_group_sizes [OF g])
  have each: "\<forall>grp \<in> set ?groups. length grp = ?n div ?g \<or> length grp = ?n div ?g + 1"
  proof
    fix grp assume "grp \<in> set ?groups"
    then have "length grp \<in> set (map length ?groups)" by simp
    then have "length grp \<in> set (group_sizes ?n ?g)" by (simp only: sizes)
    then show "length grp = ?n div ?g \<or> length grp = ?n div ?g + 1"
      by (auto simp: group_sizes_def)
  qed
  have big: "\<forall>grp \<in> set ?groups. length grp = ?n div ?g + 1 \<longrightarrow> ?n mod ?g \<noteq> 0"
  proof (intro ballI impI)
    fix grp assume m: "grp \<in> set ?groups" and l: "length grp = ?n div ?g + 1"
    from m have "length grp \<in> set (map length ?groups)" by simp
    then have "length grp \<in> set (group_sizes ?n ?g)" by (simp only: sizes)
    with l show "?n mod ?g \<noteq> 0"
      by (auto simp: group_sizes_def)
  qed
  have fc: "\<forall>grp \<in> set ?groups.
              int (length grp) = \<lfloor>of_nat ?n / of_nat ?g :: rat\<rfloor>
              \<or> int (length grp) = \<lceil>of_nat ?n / of_nat ?g :: rat\<rceil>"
  proof
    fix grp assume m: "grp \<in> set ?groups"
    from each m have "length grp = ?n div ?g \<or> length grp = ?n div ?g + 1" by blast
    then show "int (length grp) = \<lfloor>of_nat ?n / of_nat ?g :: rat\<rfloor>
              \<or> int (length grp) = \<lceil>of_nat ?n / of_nat ?g :: rat\<rceil>"
    proof
      assume "length grp = ?n div ?g"
      then show ?thesis by (simp add: floor_ceiling_quotient(1) [OF g])
    next
      assume l: "length grp = ?n div ?g + 1"
      with big m have "?n mod ?g \<noteq> 0" by blast
      with l show ?thesis by (simp add: floor_ceiling_quotient(2) [OF g])
    qed
  qed
  have q: "0 < ?n div ?g"
    using g gn by (simp add: div_greater_zero_iff)
  have nonempty: "\<forall>grp \<in> set ?groups. grp \<noteq> []"
  proof
    fix grp assume "grp \<in> set ?groups"
    with each have "length grp = ?n div ?g \<or> length grp = ?n div ?g + 1" by blast
    with q show "grp \<noteq> []" by auto
  qed
  from run g1 gn same len cat sizes fc nonempty show ?thesis
    unfolding Let_def group_sizes_def by simp
qed

theorem stitch_groups_partition_witness:
  "\<exists>groups. stitch_groups seven_in_three = Inr groups
     \<and> length groups = 3
     \<and> map length groups = [3, 2, 2]
     \<and> concat groups = [''1.png'', ''2.png'', ''3.png'', ''4.png'', ''5.png'', ''6.png'', ''7.png'']"
proof -
  have ne: "ordered_sources seven_in_three \<noteq> []"
    by (simp add: seven_in_three_def)
  have n: "length (ordered_sources seven_in_three) = 7"
    by (simp add: seven_in_three_def)
  have g: "clamp_group_count 7 (group_count seven_in_three) = 3"
    by (simp add: seven_in_three_def clamp_group_count_def)
  have sizes: "replicate (7 mod 3) (7 div 3 + 1) @ replicate (3 - 7 mod 3) (7 div 3)
      = [3, 2, 2 :: nat]"
    by (simp add: numeral_2_eq_2)
  from stitch_groups_partition [OF ne] obtain groups where
    run: "stitch_groups seven_in_three = Inr groups"
    and len: "length groups = 3"
    and cat: "concat groups = ordered_sources seven_in_three"
    and lens: "map length groups
      = replicate (7 mod 3) (7 div 3 + 1) @ replicate (3 - 7 mod 3) (7 div 3)"
    unfolding Let_def n g by blast
  from lens have "map length groups = [3, 2, 2]"
    by (simp only: sizes)
  with run len cat show ?thesis
    by (auto simp: seven_in_three_def)
qed

section \<open>Properties of the uniform cuts\<close>

lemma cut_row_div:
  assumes "0 < k"
  shows "cut_row H k i = (2 * i * H + k) div (2 * k)"
proof -
  have k0: "(of_nat k :: rat) \<noteq> 0" using assms by simp
  have "of_nat i * (of_nat H / of_nat k) + 1 / 2 = (of_nat (2 * i * H + k) / of_nat (2 * k) :: rat)"
    using k0 by (simp add: field_simps)
  then have "round (of_nat i * ideal_height H k) = \<lfloor>of_nat (2 * i * H + k) / of_nat (2 * k) :: rat\<rfloor>"
    by (simp only: round_def ideal_height_def)
  also have "\<dots> = int ((2 * i * H + k) div (2 * k))"
    by (rule floor_divide_of_nat_eq)
  finally show ?thesis by (simp add: cut_row_def)
qed

lemma cut_row_0: "0 < k \<Longrightarrow> cut_row H k 0 = 0"
  by (simp add: cut_row_div)

lemma cut_row_top: "0 < k \<Longrightarrow> cut_row H k k = H"
proof -
  assume k: "0 < k"
  have "(2 * k * H + k) div (2 * k) = (k + H * (2 * k)) div (2 * k)"
    by (simp add: algebra_simps)
  also have "\<dots> = k div (2 * k) + H"
    using k by simp
  also have "\<dots> = H" using k by simp
  finally show ?thesis using k by (simp add: cut_row_div)
qed

lemma cut_row_step:
  assumes "0 < k" and "k \<le> H"
  shows "cut_row H k i < cut_row H k (Suc i)"
proof -
  have "(2 * i * H + k) div (2 * k) + 1 = (2 * i * H + k + 2 * k) div (2 * k)"
    using assms(1) by (subst div_add_self2) simp_all
  also have "\<dots> \<le> (2 * Suc i * H + k) div (2 * k)"
    using assms(2) by (intro div_le_mono) simp
  finally show ?thesis
    using assms(1) by (simp add: cut_row_div)
qed

lemma cut_row_strict_mono:
  assumes "0 < k" and "k \<le> H" and "i < j"
  shows "cut_row H k i < cut_row H k j"
  using cut_row_step [OF assms(1,2)] assms(3) by (rule lift_Suc_mono_less)

lemma length_pieces_between: "length (pieces_between bs) = length bs - 1"
  by (induction bs rule: pieces_between.induct) simp_all

lemma rows_pieces_between:
  "sorted bs \<Longrightarrow> bs \<noteq> [] \<Longrightarrow>
   concat (map piece_rows (pieces_between bs)) = [hd bs..<last bs]"
proof (induction bs rule: pieces_between.induct)
  case (1 a b bs)
  then have ab: "a \<le> b" and bl: "b \<le> last (b # bs)" and s: "sorted (b # bs)"
    by auto
  have "[a..<last (b # bs)] = [a..<b] @ [b..<last (b # bs)]"
    using ab bl by (metis le_Suc_ex upt_add_eq_append)
  with 1 s show ?case by (simp add: piece_rows_def)
qed simp_all

lemma heights_pieces_between:
  "sorted bs \<Longrightarrow> bs \<noteq> [] \<Longrightarrow>
   sum_list (map piece_height (pieces_between bs)) = last bs - hd bs"
proof (induction bs rule: pieces_between.induct)
  case (1 a b bs)
  then have ab: "a \<le> b" and bl: "b \<le> last (b # bs)" and s: "sorted (b # bs)"
    by auto
  with 1 show ?case by (simp add: piece_height_def)
qed simp_all

lemma nonempty_pieces_between:
  "sorted_wrt (<) bs \<Longrightarrow> p \<in> set (pieces_between bs) \<Longrightarrow> fst p < snd p"
  by (induction bs rule: pieces_between.induct) auto

lemma pieces_between_snoc:
  "pieces_between (as @ [a, b]) = pieces_between (as @ [a]) @ [(a, b)]"
  by (induction as rule: pieces_between.induct) simp_all

lemma sum_list_butlast_last:
  "ps \<noteq> [] \<Longrightarrow> sum_list (map f (butlast ps)) + f (last ps) = (sum_list (map f ps) :: nat)"
  by (induction ps) auto

lemma uniform_bounds:
  assumes "0 < k"
  shows "0 # uniform_cuts H k @ [H] = map (cut_row H k) [0..<Suc k]"
proof -
  have "[0..<Suc k] = 0 # [1..<k] @ [k]"
    using assms by (simp add: upt_conv_Cons)
  then show ?thesis
    by (simp add: uniform_cuts_def cut_row_0 [OF assms] cut_row_top [OF assms])
qed

text \<open>
  C2. For every total height \<open>H\<close> (the source height after any resize) and every piece count
  \<open>k\<close> from 1 to \<open>H\<close>, the uniform slicing returns \<open>k\<close> pieces; listing the rows of the pieces
  one after the other gives the rows \<open>0, ..., H - 1\<close>, each once and in order, so the pieces
  are contiguous, disjoint and cover the image; no piece is empty; the heights sum to \<open>H\<close>;
  and the last piece runs from the last cut to row \<open>H\<close>, taking what the rounded cuts leave.
\<close>

theorem slice_uniform_exact_cover:
  assumes "1 \<le> k" and "k \<le> H"
  shows "\<exists>ps. slice_uniform H k = Inr ps
     \<and> length ps = k
     \<and> concat (map piece_rows ps) = [0..<H]
     \<and> sum_list (map piece_height ps) = H
     \<and> (\<forall>p \<in> set ps. fst p < snd p)
     \<and> last ps = (cut_row H k (k - 1), H)
     \<and> piece_height (last ps) = H - sum_list (map piece_height (butlast ps))"
proof -
  let ?bs = "0 # uniform_cuts H k @ [H]"
  let ?ps = "pieces_between ?bs"
  from assms have k: "0 < k" by simp
  have run: "slice_uniform H k = Inr ?ps"
    using assms by (simp add: slice_uniform_def)
  have bs: "?bs = map (cut_row H k) [0..<Suc k]"
    by (rule uniform_bounds [OF k])
  have strict: "sorted_wrt (<) ?bs"
    unfolding bs by (simp only: sorted_wrt_map)
      (rule sorted_wrt_mono_rel [OF _ sorted_wrt_upt],
       simp add: cut_row_strict_mono [OF k assms(2)])
  then have sorted: "sorted ?bs"
    by (rule sorted_wrt_mono_rel [rotated]) simp
  have len: "length ?ps = k"
    using k by (simp add: length_pieces_between uniform_cuts_def)
  have rows: "concat (map piece_rows ?ps) = [0..<H]"
    using rows_pieces_between [OF sorted] by simp
  have heights: "sum_list (map piece_height ?ps) = H"
    using heights_pieces_between [OF sorted] by simp
  have nonempty: "\<forall>p \<in> set ?ps. fst p < snd p"
    using nonempty_pieces_between [OF strict] by blast
  have last: "last ?ps = (cut_row H k (k - 1), H)"
  proof -
    obtain m where m: "k = Suc m" using k by (cases k) simp_all
    have upt: "[0..<Suc k] = [0..<m] @ [m, k]"
      by (simp add: m)
    have "?bs = map (cut_row H k) ([0..<m] @ [m, k])"
      by (simp only: bs upt)
    then have "?bs = map (cut_row H k) [0..<m] @ [cut_row H k m, cut_row H k k]"
      by simp
    then have "last ?ps = (cut_row H k m, cut_row H k k)"
      by (simp only: pieces_between_snoc last_snoc)
    moreover have "m = k - 1" by (simp add: m)
    ultimately show ?thesis
      by (simp only: cut_row_top [OF k])
  qed
  have rest: "sum_list (map piece_height (butlast ?ps)) + piece_height (last ?ps) = H"
  proof -
    have "?ps \<noteq> []" using len k by auto
    then show ?thesis
      using heights by (simp add: sum_list_butlast_last)
  qed
  then have absorb: "piece_height (last ?ps) = H - sum_list (map piece_height (butlast ?ps))"
    by simp
  from run len rows heights nonempty last absorb show ?thesis by blast
qed

theorem slice_uniform_exact_cover_witness:
  "slice_uniform 10 4 = Inr [(0, 3), (3, 5), (5, 8), (8, 10)]
   \<and> concat (map piece_rows [(0, 3), (3, 5), (5, 8), (8, 10)]) = [0..<10]
   \<and> sum_list (map piece_height [(0, 3), (3, 5), (5, 8), (8, 10)]) = 10"
proof -
  have run: "slice_uniform 10 4 = Inr [(0, 3), (3, 5), (5, 8), (8, 10)]"
    by code_simp
  from slice_uniform_exact_cover [of 4 10] obtain ps where
    "slice_uniform 10 4 = Inr ps"
    and "concat (map piece_rows ps) = [0..<10]"
    and "sum_list (map piece_height ps) = 10"
    by auto
  with run show ?thesis by simp
qed

section \<open>Properties of the sequencer\<close>























text \<open>For path sets whose file names are pairwise different the sequence depends on the
  set only, and restricting the sequence of a union to a part gives the sequence of the
  part. Two paths with one file name have one key; what orders them is not in section
  4.1.\<close>

lemma inj_sort_key_of: "inj_on basename A \<Longrightarrow> inj_on sort_key_of A"
  by (rule inj_onI) (simp add: sort_key_of_def inj_on_def)

lemma sort_files_distinct_names:
  assumes "inj_on basename (set xs)" and "distinct xs" and "distinct ys" and "set xs = set ys"
  shows "sort_files xs = sort_files ys"
proof -
  from assms(2,3,4) have "mset xs = mset ys"
    by (simp add: set_eq_iff_mset_eq_distinct)
  then have m: "mset xs = mset (sort_key sort_key_of ys)" by simp
  have s: "sorted (map sort_key_of (sort_key sort_key_of ys))" by simp
  have "sort_key sort_key_of xs = sort_key sort_key_of ys"
    by (rule sort_key_inj_key_eq [OF m inj_sort_key_of [OF assms(1)] s])
  then show ?thesis by (simp add: sort_files_def)
qed

lemma sort_files_distinct_names_restrict:
  assumes "inj_on basename (set old)" and "distinct zs" and "distinct old"
    and "set zs = set old \<union> new"
  shows "filter (\<lambda>p. p \<in> set old) (sort_files zs) = sort_files old"
proof -
  have "filter (\<lambda>p. p \<in> set old) (sort_files zs) = sort_files (filter (\<lambda>p. p \<in> set old) zs)"
    by (simp add: sort_files_def filter_sort)
  also have "\<dots> = sort_files old"
  proof (rule sort_files_distinct_names)
    show "set (filter (\<lambda>p. p \<in> set old) zs) = set old" using assms(4) by auto
    then show "inj_on basename (set (filter (\<lambda>p. p \<in> set old) zs))"
      using assms(1) by simp
    show "distinct (filter (\<lambda>p. p \<in> set old) zs)" using assms(2) by simp
    show "distinct old" by (rule assms(3))
  qed
  finally show ?thesis .
qed



section \<open>Properties of the size-budget encoder\<close>

lemma smallest_in: "cs \<noteq> [] \<Longrightarrow> smallest cs \<in> set cs"
  by (induction cs rule: smallest.induct) (auto simp: Let_def)

lemma smallest_least: "c \<in> set cs \<Longrightarrow> length (smallest cs) \<le> length c"
  by (induction cs rule: smallest.induct) (auto simp: Let_def)

lemma quality_search_None:
  "quality_search enc l px qs tried = (None, t') \<Longrightarrow>
   t' = tried @ map (enc px) qs \<and> (\<forall>q \<in> set qs. l < length (enc px q))"
proof (induction qs arbitrary: tried)
  case Nil
  then show ?case by simp
next
  case (Cons q qs)
  from Cons.prems have big: "l < length (enc px q)"
    by (auto simp: Let_def split: if_splits)
  with Cons.prems have "quality_search enc l px qs (tried @ [enc px q]) = (None, t')"
    by (simp add: Let_def)
  from Cons.IH [OF this] big show ?case by simp
qed

lemma quality_search_Some:
  "quality_search enc l px qs tried = (Some c, t') \<Longrightarrow>
   \<exists>extra. t' = tried @ extra @ [c] \<and> length c \<le> l \<and> (\<forall>d \<in> set extra. l < length d)
     \<and> length extra < length qs \<and> set (extra @ [c]) \<subseteq> enc px ` set qs"
proof (induction qs arbitrary: tried)
  case Nil
  then show ?case by simp
next
  case (Cons q qs)
  show ?case
  proof (cases "length (enc px q) \<le> l")
    case True
    with Cons.prems have "c = enc px q" and "t' = tried @ [enc px q]"
      by (auto simp: Let_def)
    with True show ?thesis by (intro exI [of _ "[]"]) simp
  next
    case False
    with Cons.prems have "quality_search enc l px qs (tried @ [enc px q]) = (Some c, t')"
      by (simp add: Let_def)
    from Cons.IH [OF this] obtain extra where
      e: "t' = (tried @ [enc px q]) @ extra @ [c]" "length c \<le> l" "\<forall>d \<in> set extra. l < length d"
         "length extra < length qs" "set (extra @ [c]) \<subseteq> enc px ` set qs"
      by blast
    with False show ?thesis
      by (intro exI [of _ "enc px q # extra"]) auto
  qed
qed

lemma budget_rounds_spec:
  assumes "ladder \<noteq> []" and "\<forall>c \<in> set tried. l < length c"
  shows "(\<exists>extra. produced (budget_rounds enc down l ladder n px tried) = tried @ extra
            \<and> extra \<noteq> [] \<and> length extra \<le> length ladder * Suc n
            \<and> (\<forall>c \<in> set extra. \<exists>j q. j \<le> n \<and> q \<in> set ladder \<and> c = enc ((down ^^ j) px) q))
     \<and> stream (budget_rounds enc down l ladder n px tried)
          \<in> set (produced (budget_rounds enc down l ladder n px tried))
     \<and> (\<forall>c \<in> set (produced (budget_rounds enc down l ladder n px tried)).
           length (stream (budget_rounds enc down l ladder n px tried)) \<le> length c)
     \<and> (budget_met (budget_rounds enc down l ladder n px tried)
          \<longleftrightarrow> length (stream (budget_rounds enc down l ladder n px tried)) \<le> l)"
  using assms(2)
proof (induction n arbitrary: px tried)
  case 0
  show ?case
  proof (cases "quality_search enc l px ladder tried")
    case (Pair found t')
    show ?thesis
    proof (cases found)
      case None
      from quality_search_None [OF Pair [unfolded None]]
      have t: "t' = tried @ map (enc px) ladder" and big: "\<forall>q \<in> set ladder. l < length (enc px q)"
        by simp_all
      have ne: "t' \<noteq> []" using assms(1) t by simp
      have all_big: "\<forall>c \<in> set t'. l < length c"
        using t big "0.prems" by auto
      have r: "budget_rounds enc down l ladder 0 px tried
          = \<lparr>stream = smallest t', budget_met = False, produced = t'\<rparr>"
        by (simp add: Pair None)
      have unmet: "l < length (smallest t')"
        using all_big smallest_in [OF ne] by blast
      have cand: "\<forall>d \<in> set (map (enc px) ladder). \<exists>j q. j \<le> (0::nat) \<and> q \<in> set ladder
          \<and> d = enc ((down ^^ j) px) q"
        by auto
      have ex: "\<exists>ex. t' = tried @ ex \<and> ex \<noteq> [] \<and> length ex \<le> length ladder * Suc 0
            \<and> (\<forall>d \<in> set ex. \<exists>j q. j \<le> (0::nat) \<and> q \<in> set ladder \<and> d = enc ((down ^^ j) px) q)"
        using t assms(1) cand by (intro exI [of _ "map (enc px) ladder"]) simp
      have least: "\<forall>d \<in> set t'. length (smallest t') \<le> length d"
        using smallest_least by blast
      show ?thesis
        unfolding r using ex least unmet smallest_in [OF ne] by simp
    next
      case (Some c)
      from quality_search_Some [OF Pair [unfolded Some]] obtain extra where
        e: "t' = tried @ extra @ [c]" "length c \<le> l" "\<forall>d \<in> set extra. l < length d"
           "length extra < length ladder" "set (extra @ [c]) \<subseteq> enc px ` set ladder"
        by blast
      have r: "budget_rounds enc down l ladder 0 px tried
          = \<lparr>stream = c, budget_met = True, produced = t'\<rparr>"
        by (simp add: Pair Some)
      have least: "\<forall>d \<in> set t'. length c \<le> length d"
        using e(1,2,3) "0.prems" by auto
      have cand: "\<forall>d \<in> set (extra @ [c]). \<exists>j q. j \<le> (0::nat) \<and> q \<in> set ladder
          \<and> d = enc ((down ^^ j) px) q"
        using e(5) by auto
      have ex: "\<exists>ex. t' = tried @ ex \<and> ex \<noteq> [] \<and> length ex \<le> length ladder * Suc 0
            \<and> (\<forall>d \<in> set ex. \<exists>j q. j \<le> (0::nat) \<and> q \<in> set ladder \<and> d = enc ((down ^^ j) px) q)"
        using e(1,4) cand by (intro exI [of _ "extra @ [c]"]) simp
      show ?thesis
        unfolding r using ex least e(1,2) by simp
    qed
  qed
next
  case (Suc n)
  show ?case
  proof (cases "quality_search enc l px ladder tried")
    case (Pair found t')
    show ?thesis
    proof (cases found)
      case None
      from quality_search_None [OF Pair [unfolded None]]
      have t: "t' = tried @ map (enc px) ladder" and big: "\<forall>q \<in> set ladder. l < length (enc px q)"
        by simp_all
      have all_big: "\<forall>c \<in> set t'. l < length c"
        using t big Suc.prems by auto
      have r: "budget_rounds enc down l ladder (Suc n) px tried
          = budget_rounds enc down l ladder n (down px) t'"
        by (simp add: Pair None)
      let ?r = "budget_rounds enc down l ladder n (down px) t'"
      from Suc.IH [OF all_big, of "down px"] obtain extra where
        e: "produced ?r = t' @ extra" "extra \<noteq> []" "length extra \<le> length ladder * Suc n"
           "\<forall>c \<in> set extra. \<exists>j q. j \<le> n \<and> q \<in> set ladder \<and> c = enc ((down ^^ j) (down px)) q"
        and rest: "stream ?r \<in> set (produced ?r)"
           "\<forall>c \<in> set (produced ?r). length (stream ?r) \<le> length c"
           "budget_met ?r \<longleftrightarrow> length (stream ?r) \<le> l"
        by blast
      have first: "\<forall>c \<in> set (map (enc px) ladder).
          \<exists>j q. j \<le> Suc n \<and> q \<in> set ladder \<and> c = enc ((down ^^ j) px) q"
      proof
        fix c assume "c \<in> set (map (enc px) ladder)"
        then obtain q where "q \<in> set ladder" "c = enc px q" by auto
        then have "0 \<le> Suc n \<and> q \<in> set ladder \<and> c = enc ((down ^^ 0) px) q" by simp
        then show "\<exists>j q. j \<le> Suc n \<and> q \<in> set ladder \<and> c = enc ((down ^^ j) px) q"
          by blast
      qed
      have later: "\<forall>c \<in> set extra.
          \<exists>j q. j \<le> Suc n \<and> q \<in> set ladder \<and> c = enc ((down ^^ j) px) q"
      proof
        fix c assume "c \<in> set extra"
        with e(4) obtain j q where "j \<le> n" "q \<in> set ladder" "c = enc ((down ^^ j) (down px)) q"
          by blast
        then have "Suc j \<le> Suc n \<and> q \<in> set ladder \<and> c = enc ((down ^^ Suc j) px) q"
          by (simp add: funpow_swap1)
        then show "\<exists>j q. j \<le> Suc n \<and> q \<in> set ladder \<and> c = enc ((down ^^ j) px) q"
          by blast
      qed
      have ex: "\<exists>ex. produced ?r = tried @ ex \<and> ex \<noteq> [] \<and> length ex \<le> length ladder * Suc (Suc n)
            \<and> (\<forall>c \<in> set ex. \<exists>j q. j \<le> Suc n \<and> q \<in> set ladder \<and> c = enc ((down ^^ j) px) q)"
        using e(1,2,3) t first later
        by (intro exI [of _ "map (enc px) ladder @ extra"]) auto
      from ex rest show ?thesis
        unfolding r by blast
    next
      case (Some c)
      from quality_search_Some [OF Pair [unfolded Some]] obtain extra where
        e: "t' = tried @ extra @ [c]" "length c \<le> l" "\<forall>d \<in> set extra. l < length d"
           "length extra < length ladder" "set (extra @ [c]) \<subseteq> enc px ` set ladder"
        by blast
      have r: "budget_rounds enc down l ladder (Suc n) px tried
          = \<lparr>stream = c, budget_met = True, produced = t'\<rparr>"
        by (simp add: Pair Some)
      have least: "\<forall>d \<in> set t'. length c \<le> length d"
        using e(1,2,3) Suc.prems by auto
      have cand: "\<forall>d \<in> set (extra @ [c]). \<exists>j q. j \<le> Suc n \<and> q \<in> set ladder
          \<and> d = enc ((down ^^ j) px) q"
      proof
        fix d assume "d \<in> set (extra @ [c])"
        with e(5) obtain q where "q \<in> set ladder" "d = enc px q" by auto
        then have "0 \<le> Suc n \<and> q \<in> set ladder \<and> d = enc ((down ^^ 0) px) q" by simp
        then show "\<exists>j q. j \<le> Suc n \<and> q \<in> set ladder \<and> d = enc ((down ^^ j) px) q"
          by blast
      qed
      have ex: "\<exists>ex. t' = tried @ ex \<and> ex \<noteq> [] \<and> length ex \<le> length ladder * Suc (Suc n)
            \<and> (\<forall>d \<in> set ex. \<exists>j q. j \<le> Suc n \<and> q \<in> set ladder \<and> d = enc ((down ^^ j) px) q)"
        using e(1,4) cand by (intro exI [of _ "extra @ [c]"]) simp
      show ?thesis
        unfolding r using ex least e(1,2) by simp
    qed
  qed
qed

text \<open>
  C4. For every bitmap, every positive byte limit and every non-empty quality ladder, the
  encoder (a total function) makes at most \<open>7 * len(ladder)\<close> encodings, one quality search
  on the bitmap and one after each of at most 6 downscales; it returns one of the
  candidates it produced, none of which is shorter; and it flags the budget as met exactly
  when the returned stream fits the limit, so an unreachable limit gives the smallest
  candidate flagged as not met.
\<close>

theorem size_budget_encode_bounded:
  assumes "0 < limit" and "ladder \<noteq> []"
  shows "produced (size_budget_encode enc down hq ladder px (Some limit)) \<noteq> []
     \<and> length (produced (size_budget_encode enc down hq ladder px (Some limit)))
         \<le> length ladder * (max_downscale_rounds + 1)
     \<and> (\<forall>c \<in> set (produced (size_budget_encode enc down hq ladder px (Some limit))).
           \<exists>j q. j \<le> max_downscale_rounds \<and> q \<in> set ladder \<and> c = enc ((down ^^ j) px) q)
     \<and> stream (size_budget_encode enc down hq ladder px (Some limit))
          \<in> set (produced (size_budget_encode enc down hq ladder px (Some limit)))
     \<and> (\<forall>c \<in> set (produced (size_budget_encode enc down hq ladder px (Some limit))).
           length (stream (size_budget_encode enc down hq ladder px (Some limit))) \<le> length c)
     \<and> (budget_met (size_budget_encode enc down hq ladder px (Some limit))
          \<longleftrightarrow> int (length (stream (size_budget_encode enc down hq ladder px (Some limit))))
                \<le> limit)"
proof -
  let ?r = "budget_rounds enc down (nat limit) ladder max_downscale_rounds px []"
  have run: "size_budget_encode enc down hq ladder px (Some limit) = ?r"
    using assms(1) by (simp add: size_budget_encode_def)
  have none: "\<forall>c \<in> set ([] :: blob list). nat limit < length c" by simp
  from budget_rounds_spec [OF assms(2) none, of enc down max_downscale_rounds px]
  obtain extra where
    e: "produced ?r = [] @ extra" "extra \<noteq> []"
       "length extra \<le> length ladder * Suc max_downscale_rounds"
       "\<forall>c \<in> set extra. \<exists>j q. j \<le> max_downscale_rounds \<and> q \<in> set ladder
          \<and> c = enc ((down ^^ j) px) q"
    and rest: "stream ?r \<in> set (produced ?r)"
       "\<forall>c \<in> set (produced ?r). length (stream ?r) \<le> length c"
       "budget_met ?r \<longleftrightarrow> length (stream ?r) \<le> nat limit"
    by blast
  have met: "budget_met ?r \<longleftrightarrow> int (length (stream ?r)) \<le> limit"
    using rest(3) assms(1) by auto
  from e rest(1,2) met show ?thesis
    unfolding run by simp
qed

theorem size_budget_encode_bounded_witness:
  "size_budget_encode toy_encode toy_downscale 95 [3, 2, 1] 4 (Some 1)
     = \<lparr>stream = ''xx'', budget_met = False,
        produced = map (\<lambda>n. replicate n (CHR ''x''))
          [14, 10, 6, 11, 8, 5, 8, 6, 4, 5, 4, 3, 2, 2, 2, 2, 2, 2, 2, 2, 2]\<rparr>
   \<and> length (produced (size_budget_encode toy_encode toy_downscale 95 [3, 2, 1] 4 (Some 1))) \<le> 21
   \<and> \<not> budget_met (size_budget_encode toy_encode toy_downscale 95 [3, 2, 1] 4 (Some 1))"
proof -
  have run: "size_budget_encode toy_encode toy_downscale 95 [3, 2, 1] 4 (Some 1)
     = \<lparr>stream = ''xx'', budget_met = False,
        produced = map (\<lambda>n. replicate n (CHR ''x''))
          [14, 10, 6, 11, 8, 5, 8, 6, 4, 5, 4, 3, 2, 2, 2, 2, 2, 2, 2, 2, 2]\<rparr>"
    by code_simp
  have pos: "(0::int) < 1" and ne: "[3, 2, 1::nat] \<noteq> []" by simp_all
  from size_budget_encode_bounded [OF pos ne, of toy_encode toy_downscale 95 4]
  have "length (produced (size_budget_encode toy_encode toy_downscale 95 [3, 2, 1] 4 (Some 1)))
      \<le> length [3, 2, 1::nat] * (max_downscale_rounds + 1)"
    by (elim conjE)
  then have bound: "length (produced (size_budget_encode toy_encode toy_downscale 95 [3, 2, 1] 4
      (Some 1))) \<le> 21"
    by (simp add: max_downscale_rounds_def)
  from run have unmet: "\<not> budget_met (size_budget_encode toy_encode toy_downscale 95 [3, 2, 1] 4
      (Some 1))"
    by simp
  from run bound unmet show ?thesis by (intro conjI)
qed

end
